theory Spec2Isabelle
  imports Main "HOL-Library.Word" "HOL-Library.AList" "HOL-Library.Signed_Division"
begin

section \<open>Data model (goard types)\<close>

text \<open>
  Go's \<open>int64\<close> is a 64-bit word. A \<open>time.Time\<close> is read as its wall-clock instant in
  nanoseconds since the Unix epoch, a \<open>time.Duration\<close> as a number of nanoseconds;
  \<open>Time.Add\<close> is addition (the saturation of the standard library at the ends of its
  range is left out) and \<open>Time.Unix\<close> is the whole second the instant falls in.
\<close>

type_synonym int64 = "64 word"
type_synonym time = int
type_synonym duration = int

definition Unix :: "time \<Rightarrow> int" where
  "Unix t = t div 1000000000"

definition Add :: "time \<Rightarrow> duration \<Rightarrow> time" where
  "Add t d = t + d"

text \<open>\<open>Duration.Milliseconds\<close>: integer division truncating towards zero.\<close>

definition Milliseconds :: "duration \<Rightarrow> int" where
  "Milliseconds d = d sdiv 1000000"

text \<open>
  The sentinel errors of the package; \<open>ErrOther\<close> stands for any other error value (a
  driver error, \<open>context.Canceled\<close>, ...), \<open>Wrap\<close> for an error wrapping another one,
  which \<open>errors.Is\<close> unwraps.
\<close>

datatype error =
    ErrMethod | ErrAccessDenied | ErrRoleConflict
  | ErrCredentialsConflict | ErrCredentialsNotFound | ErrCredentialsMismatch
  | ErrBadCredentials | ErrSessionNotFound | ErrSessionExpired
  | ErrOther string
  | Wrap string error

fun errors_Is :: "error \<Rightarrow> error \<Rightarrow> bool" where
  "errors_Is (Wrap m e) target = (Wrap m e = target \<or> errors_Is e target)"
| "errors_Is e target = (e = target)"

text \<open>The \<open>Account\<close> interface: all the core asks of an account is \<open>GetID\<close>.\<close>

record account =
  GetID :: int64

record Admin =
  a_Account :: account
  a_Login :: string
  a_Password :: string

record Credentials =
  c_id :: int64
  c_login :: string
  c_passhash :: string
  c_roles :: "string list"

record Session =
  s_id :: string
  s_account :: account
  s_credentials :: Credentials
  s_exp :: time
  s_iss :: time
  s_admin :: bool

section \<open>The session store (type \<open>store\<close>)\<close>

text \<open>
  The Go map \<open>sessions map[string]*Session\<close> is an association list: the order of the
  list is the order in which \<open>range\<close> happens to enumerate the map, so a statement about
  every list is a statement about every iteration order. \<open>CreateSession\<close> overwrites the
  entry of the key or adds one, \<open>RevokeSession\<close> deletes the key, \<open>Count\<close> is the number of
  entries (a key occurs once). The locks play no role in a sequential run. All operations
  of this store return a nil error; \<open>Reset\<close> is not used by the core.
\<close>

type_synonym store = "(string \<times> Session) list"

definition NewStore :: store where
  "NewStore = []"

definition CreateSession :: "Session \<Rightarrow> store \<Rightarrow> error option \<times> store" where
  "CreateSession session st = (None, AList.update (s_id session) session st)"

definition InvokeSession :: "store \<Rightarrow> string \<Rightarrow> error + Session" where
  "InvokeSession st i = (case map_of st i of Some session \<Rightarrow> Inr session | None \<Rightarrow> Inl ErrSessionNotFound)"

definition RevokeSession :: "string \<Rightarrow> store \<Rightarrow> error option \<times> store" where
  "RevokeSession i st = (None, AList.delete i st)"

definition Count :: "store \<Rightarrow> nat" where
  "Count st = length st"

text \<open>
  \<open>ForEach\<close> copies the sessions out (\<open>tmp\<close>) and then runs the callback on each copy
  against the current store, stopping at the first error.
\<close>

fun ForEach_loop :: "(Session \<Rightarrow> store \<Rightarrow> error option \<times> store) \<Rightarrow> Session list \<Rightarrow> store
    \<Rightarrow> error option \<times> store" where
  "ForEach_loop callback [] st = (None, st)"
| "ForEach_loop callback (session # tmp) st =
     (case callback session st of
        (Some err, st') \<Rightarrow> (Some err, st')
      | (None, st') \<Rightarrow> ForEach_loop callback tmp st')"

definition ForEach :: "(Session \<Rightarrow> store \<Rightarrow> error option \<times> store) \<Rightarrow> store \<Rightarrow> error option \<times> store" where
  "ForEach callback st = ForEach_loop callback (map snd st) st"

text \<open>
  What \<open>NewStore\<close> establishes and \<open>CreateSession\<close>/\<open>RevokeSession\<close> keep: a key occurs
  once (it is a map) and every session is filed under its own id.
\<close>

definition store_inv :: "store \<Rightarrow> bool" where
  "store_inv st = (distinct (map fst st) \<and> list_all (\<lambda>(k, x). s_id x = k) st)"

section \<open>Role reconciliation (\<open>diffSlices\<close>)\<close>

text \<open>The two \<open>map[string]struct{}\<close> are sets; the four loops are folds over the slices.\<close>

definition diffSlices :: "string list \<Rightarrow> string list \<Rightarrow> string list \<times> string list" where
  "diffSlices old new =
     (let oldMap = fold insert old {};
          newMap = fold insert new {};
          toDelete = fold (\<lambda>item acc. if item \<in> newMap then acc else acc @ [item]) old [];
          toAdd = fold (\<lambda>item acc. if item \<in> oldMap then acc else acc @ [item]) new []
      in (toDelete, toAdd))"

section \<open>Collaborators, configuration and state\<close>

text \<open>
  The interfaces \<open>App\<close>, \<open>Database\<close>, \<open>Validator\<close> and \<open>Hasher\<close> are records of
  functions over a state \<open>'w\<close> of the outside world, which every call may read and change.
  A Go result pair (value, error) is a sum, \<open>Inl\<close> the error; a call is assumed to
  return a fresh value, not a pointer it shares with a session of the store. The
  \<open>context.Context\<close> handed to a call is part of that world.
\<close>

record 'w App =
  CreateAccount :: "string \<Rightarrow> 'w \<Rightarrow> (error + account) \<times> 'w"
  AccountByID :: "int64 \<Rightarrow> 'w \<Rightarrow> (error + account) \<times> 'w"
  DeleteAccount :: "int64 \<Rightarrow> 'w \<Rightarrow> error option \<times> 'w"

record 'w Database =
  CredentialsByLogin :: "string \<Rightarrow> 'w \<Rightarrow> (error + Credentials) \<times> 'w"
  CreateCredentials :: "Credentials \<Rightarrow> 'w \<Rightarrow> error option \<times> 'w"
  CredentialsByID :: "int64 \<Rightarrow> 'w \<Rightarrow> (error + Credentials) \<times> 'w"
  UpdateCredentials :: "Credentials \<Rightarrow> 'w \<Rightarrow> error option \<times> 'w"

record 'w Validator =
  Validate :: "string \<Rightarrow> string \<Rightarrow> 'w \<Rightarrow> bool \<times> 'w"

record 'w Hasher =
  Hash :: "string \<Rightarrow> 'w \<Rightarrow> (error + string) \<times> 'w"
  Compare :: "string \<Rightarrow> string \<Rightarrow> 'w \<Rightarrow> bool \<times> 'w"

text \<open>
  The fields of \<open>Goard\<close> the core uses; \<open>time_Now\<close> and \<open>uuid_New\<close> are the
  package-level \<open>time.Now\<close> and \<open>uuid.New().String()\<close>, read from the world. The store
  is mutable and lives in the state below.
\<close>

record 'w Goard =
  app :: "'w App"
  database :: "'w Database"
  validator :: "'w Validator"
  hasher :: "'w Hasher"
  admin :: Admin
  ttl :: duration
  ci :: duration
  time_Now :: "'w \<Rightarrow> time \<times> 'w"
  uuid_New :: "'w \<Rightarrow> string \<times> 'w"

text \<open>
  \<open>New\<close>, for a configuration whose collaborators are all set: a \<open>TTL\<close> or \<open>CI\<close> of
  zero milliseconds is replaced by the default.
\<close>

definition DEFAULT_TTL :: duration where
  "DEFAULT_TTL = 8 * 3600 * 1000000000"

definition DEFAULT_CLEANUP :: duration where
  "DEFAULT_CLEANUP = 5 * 60 * 1000000000"

record 'w Config =
  cfg_App :: "'w App"
  cfg_Admin :: Admin
  cfg_Database :: "'w Database"
  cfg_Validator :: "'w Validator"
  cfg_Hasher :: "'w Hasher"
  cfg_TTL :: duration
  cfg_CI :: duration
  cfg_Now :: "'w \<Rightarrow> time \<times> 'w"
  cfg_uuid :: "'w \<Rightarrow> string \<times> 'w"

definition New :: "'w Config \<Rightarrow> 'w Goard" where
  "New config =
     \<lparr>app = cfg_App config,
      database = cfg_Database config,
      validator = cfg_Validator config,
      hasher = cfg_Hasher config,
      admin = cfg_Admin config,
      ttl = (if Milliseconds (cfg_TTL config) = 0 then DEFAULT_TTL else cfg_TTL config),
      ci = (if Milliseconds (cfg_CI config) = 0 then DEFAULT_CLEANUP else cfg_CI config),
      time_Now = cfg_Now config,
      uuid_New = cfg_uuid config\<rparr>"

text \<open>The default validator \<open>noValidation\<close>.\<close>

definition noValidation :: "'w Validator" where
  "noValidation = \<lparr>Validate = (\<lambda>lgn password w. (\<not> (lgn = [] \<or> password = []), w))\<rparr>"

text \<open>
  The state of a run: the store, the outside world, the log of the calls made to the
  collaborators (kept to state which calls an operation makes) and the goroutines started
  and not yet run.
\<close>

datatype call =
    CallCreateAccount string | CallAccountByID int64 | CallDeleteAccount int64
  | CallCredentialsByLogin string | CallCreateCredentials Credentials
  | CallCredentialsByID int64 | CallUpdateCredentials Credentials
  | CallValidate string string | CallHash string | CallCompare string string

datatype goroutine = GoRevokeSession string

record 'w state =
  store :: store
  world :: 'w
  calls :: "call list"
  goroutines :: "goroutine list"

text \<open>A context is polled (\<open>select\<close> on \<open>ctx.Done()\<close>): \<open>Some err\<close> is \<open>ctx.Err()\<close>.\<close>

type_synonym 'w Context = "'w \<Rightarrow> error option \<times> 'w"

definition invoke :: "call \<Rightarrow> ('w \<Rightarrow> 'r \<times> 'w) \<Rightarrow> 'w state \<Rightarrow> 'r \<times> 'w state" where
  "invoke c f s = (case f (world s) of (r, w') \<Rightarrow> (r, s\<lparr>world := w', calls := calls s @ [c]\<rparr>))"

definition ambient :: "('w \<Rightarrow> 'r \<times> 'w) \<Rightarrow> 'w state \<Rightarrow> 'r \<times> 'w state" where
  "ambient f s = (case f (world s) of (r, w') \<Rightarrow> (r, s\<lparr>world := w'\<rparr>))"

definition on_store :: "(store \<Rightarrow> 'r \<times> store) \<Rightarrow> 'w state \<Rightarrow> 'r \<times> 'w state" where
  "on_store f s = (case f (store s) of (r, st') \<Rightarrow> (r, s\<lparr>store := st'\<rparr>))"

section \<open>The core (\<open>goard_core.go\<close>)\<close>

definition signinAsAdmin :: "'w Goard \<Rightarrow> 'w Context \<Rightarrow> 'w state \<Rightarrow> (error + Session) \<times> 'w state" where
  "signinAsAdmin g ctx s =
     (let (now, s1) = ambient (time_Now g) s;
          (uuid, s2) = ambient (uuid_New g) s1;
          session = \<lparr>s_id = uuid, s_account = a_Account (admin g),
                     s_credentials = \<lparr>c_id = 0, c_login = a_Login (admin g),
                                      c_passhash = [], c_roles = [''admin'']\<rparr>,
                     s_exp = Add now (ttl g), s_iss = now, s_admin = False\<rparr>
      in case ambient ctx s2 of
           (Some err, s3) \<Rightarrow> (Inl err, s3)
         | (None, s3) \<Rightarrow>
             (case on_store (CreateSession session) s3 of
                (Some err, s4) \<Rightarrow> (Inl err, s4)
              | (None, s4) \<Rightarrow> (Inr session, s4)))"

text \<open>The callback of sign-in: revoke the sessions of the login.\<close>

definition revoke_login :: "string \<Rightarrow> Session \<Rightarrow> store \<Rightarrow> error option \<times> store" where
  "revoke_login lgn x st =
     (if c_login (s_credentials x) \<noteq> lgn then (None, st) else RevokeSession (s_id x) st)"

definition signin :: "'w Goard \<Rightarrow> 'w Context \<Rightarrow> string \<Rightarrow> string \<Rightarrow> 'w state
    \<Rightarrow> (error + Session) \<times> 'w state" where
  "signin g ctx lgn password s =
     (if lgn = [] \<or> password = [] then (Inl ErrBadCredentials, s) else
      case ambient ctx s of (Some err, s1) \<Rightarrow> (Inl err, s1) | (None, s1) \<Rightarrow>
     (case on_store (ForEach (revoke_login lgn)) s1 of (Some err, s2) \<Rightarrow> (Inl err, s2) | (None, s2) \<Rightarrow>
     (case ambient ctx s2 of (Some err, s3) \<Rightarrow> (Inl err, s3) | (None, s3) \<Rightarrow>
      if lgn = a_Login (admin g) \<and> password = a_Password (admin g) then signinAsAdmin g ctx s3 else
     (case ambient ctx s3 of (Some err, s4) \<Rightarrow> (Inl err, s4) | (None, s4) \<Rightarrow>
     (case invoke (CallCredentialsByLogin lgn) (CredentialsByLogin (database g) lgn) s4 of
        (Inl err, s5) \<Rightarrow> (Inl err, s5) | (Inr credentials, s5) \<Rightarrow>
     (case ambient ctx s5 of (Some err, s6) \<Rightarrow> (Inl err, s6) | (None, s6) \<Rightarrow>
     (case invoke (CallAccountByID (c_id credentials)) (AccountByID (app g) (c_id credentials)) s6 of
        (Inl err, s7) \<Rightarrow> (Inl err, s7) | (Inr account, s7) \<Rightarrow>
     (case ambient ctx s7 of (Some err, s8) \<Rightarrow> (Inl err, s8) | (None, s8) \<Rightarrow>
     (case invoke (CallCompare (c_passhash credentials) password)
             (Compare (hasher g) (c_passhash credentials) password) s8 of
        (False, s9) \<Rightarrow> (Inl ErrCredentialsMismatch, s9) | (True, s9) \<Rightarrow>
     (let (now, s10) = ambient (time_Now g) s9;
          (uuid, s11) = ambient (uuid_New g) s10;
          session = \<lparr>s_id = uuid, s_account = account, s_credentials = credentials,
                     s_exp = Add now (ttl g), s_iss = now, s_admin = False\<rparr>
      in case ambient ctx s11 of (Some err, s12) \<Rightarrow> (Inl err, s12) | (None, s12) \<Rightarrow>
        (case on_store (CreateSession session) s12 of
           (Some err, s13) \<Rightarrow> (Inl err, s13) | (None, s13) \<Rightarrow> (Inr session, s13))))))))))))"

text \<open>
  \<open>signup\<close>. The variable \<open>err\<close> declared at the top of the function is what the
  deferred rollback tests, not the value returned: \<open>signup_steps\<close> returns both (the
  value returned first, the final \<open>err\<close> second). The lookup by id assigns \<open>err\<close>, the
  lookup by login declares an \<open>err\<close> of its own (\<open>:=\<close>), and a \<open>return\<close> of
  \<open>ctx.Err()\<close> or of \<open>ErrCredentialsConflict\<close> assigns nothing.
\<close>

definition signup_steps :: "'w Goard \<Rightarrow> 'w Context \<Rightarrow> account \<Rightarrow> string \<Rightarrow> string \<Rightarrow> 'w state
    \<Rightarrow> error option \<times> error option \<times> 'w state" where
  "signup_steps g ctx acc lgn password s =
     (case ambient ctx s of (Some cerr, s1) \<Rightarrow> (Some cerr, None, s1) | (None, s1) \<Rightarrow>
     (case invoke (CallCredentialsByID (GetID acc)) (CredentialsByID (database g) (GetID acc)) s1 of
        (Inr found, s2) \<Rightarrow> (Some ErrCredentialsConflict, None, s2)
      | (Inl err, s2) \<Rightarrow>
      if \<not> errors_Is err ErrCredentialsNotFound then (Some err, Some err, s2) else
     (case ambient ctx s2 of (Some cerr, s3) \<Rightarrow> (Some cerr, Some err, s3) | (None, s3) \<Rightarrow>
     (case invoke (CallCredentialsByLogin lgn) (CredentialsByLogin (database g) lgn) s3 of
        (Inr found, s4) \<Rightarrow> (Some ErrCredentialsConflict, Some err, s4)
      | (Inl err', s4) \<Rightarrow>
      if \<not> errors_Is err' ErrCredentialsNotFound then (Some err', Some err, s4) else
     (case ambient ctx s4 of (Some cerr, s5) \<Rightarrow> (Some cerr, Some err, s5) | (None, s5) \<Rightarrow>
     (case invoke (CallHash password) (Hash (hasher g) password) s5 of
        (Inl herr, s6) \<Rightarrow> (Some herr, Some herr, s6)
      | (Inr passhash, s6) \<Rightarrow>
     (case ambient ctx s6 of (Some cerr, s7) \<Rightarrow> (Some cerr, None, s7) | (None, s7) \<Rightarrow>
     (let credentials = \<lparr>c_id = GetID acc, c_login = lgn, c_passhash = passhash, c_roles = []\<rparr>
      in case invoke (CallCreateCredentials credentials) (CreateCredentials (database g) credentials) s7 of
           (Some perr, s8) \<Rightarrow> (Some perr, Some perr, s8)
         | (None, s8) \<Rightarrow> (None, None, s8)))))))))"

text \<open>The deferred function: \<open>DeleteAccount\<close> when \<open>err\<close> is not nil; its own error is printed.\<close>

definition signup_deferred :: "'w Goard \<Rightarrow> account \<Rightarrow> error option \<Rightarrow> 'w state \<Rightarrow> 'w state" where
  "signup_deferred g acc err s =
     (if err \<noteq> None
      then snd (invoke (CallDeleteAccount (GetID acc)) (DeleteAccount (app g) (GetID acc)) s)
      else s)"

definition signup :: "'w Goard \<Rightarrow> 'w Context \<Rightarrow> string \<Rightarrow> string \<Rightarrow> string \<Rightarrow> 'w state
    \<Rightarrow> error option \<times> 'w state" where
  "signup g ctx account lgn password s =
     (case ambient ctx s of (Some cerr, s1) \<Rightarrow> (Some cerr, s1) | (None, s1) \<Rightarrow>
     (case invoke (CallValidate lgn password) (Validate (validator g) lgn password) s1 of
        (False, s2) \<Rightarrow> (Some ErrBadCredentials, s2) | (True, s2) \<Rightarrow>
     (case ambient ctx s2 of (Some cerr, s3) \<Rightarrow> (Some cerr, s3) | (None, s3) \<Rightarrow>
     (case invoke (CallCreateAccount account) (CreateAccount (app g) account) s3 of
        (Inl err, s4) \<Rightarrow> (Some err, s4)
      | (Inr acc, s4) \<Rightarrow>
     (let (returned, err, s5) = signup_steps g ctx acc lgn password s4
      in (returned, signup_deferred g acc err s5))))))"

definition signout :: "'w Context \<Rightarrow> string \<Rightarrow> 'w state \<Rightarrow> error option \<times> 'w state" where
  "signout ctx sessionID s =
     (if Count (store s) = 0 then (None, s) else
      case ambient ctx s of (Some cerr, s1) \<Rightarrow> (Some cerr, s1)
      | (None, s1) \<Rightarrow> on_store (RevokeSession sessionID) s1)"

text \<open>
  \<open>session\<close>: the revocation of an expired session is a goroutine, started and left to
  run later (\<open>run_goroutine\<close>).
\<close>

definition session :: "'w Goard \<Rightarrow> string \<Rightarrow> 'w state \<Rightarrow> (error + Session) \<times> 'w state" where
  "session g sessionID s =
     (if Count (store s) = 0 then (Inl ErrSessionNotFound, s) else
      let (now, s1) = ambient (time_Now g) s
      in case InvokeSession (store s1) sessionID of
           Inl err \<Rightarrow> (Inl err, s1)
         | Inr found \<Rightarrow>
             if Unix (s_exp found) > Unix now then (Inr found, s1)
             else (Inl ErrSessionExpired, s1\<lparr>goroutines := goroutines s1 @ [GoRevokeSession sessionID]\<rparr>))"

fun run_goroutine :: "goroutine \<Rightarrow> store \<Rightarrow> store" where
  "run_goroutine (GoRevokeSession sessionID) st = snd (RevokeSession sessionID st)"

text \<open>
  The body of one tick of \<open>cleanup\<close>, at tick time \<open>t\<close>; an error returned stands for
  \<open>log.Fatal\<close>. The deadline context is handed on and never polled.
\<close>

definition revoke_expired :: "time \<Rightarrow> Session \<Rightarrow> store \<Rightarrow> error option \<times> store" where
  "revoke_expired t x st =
     (if Unix (s_exp x) > Unix t then (None, st) else RevokeSession (s_id x) st)"

definition cleanup_tick :: "time \<Rightarrow> store \<Rightarrow> error option \<times> store" where
  "cleanup_tick t st = (if Count st = 0 then (None, st) else ForEach (revoke_expired t) st)"

text \<open>The role loops of \<open>setRole\<close> and \<open>unsetRole\<close>, and the callback both hand to \<open>ForEach\<close>.\<close>

fun role_held :: "string list \<Rightarrow> string \<Rightarrow> bool" where
  "role_held [] role = False"
| "role_held (r # rs) role = (if r = role then True else role_held rs role)"

fun roles_without :: "string list \<Rightarrow> string \<Rightarrow> string list \<Rightarrow> string list" where
  "roles_without [] role roles = roles"
| "roles_without (r # rs) role roles =
     roles_without rs role (if r \<noteq> role then roles @ [r] else roles)"

definition replace_credentials :: "Credentials \<Rightarrow> Session \<Rightarrow> store \<Rightarrow> error option \<times> store" where
  "replace_credentials credentials x st =
     (if c_id (s_credentials x) = c_id credentials
      then (case CreateSession \<lparr>s_id = s_id x, s_account = s_account x,
                                 s_credentials = credentials, s_exp = s_exp x,
                                 s_iss = s_iss x, s_admin = s_admin x\<rparr> st of
              (Some err, st') \<Rightarrow> (Some err, st')
            | (None, st') \<Rightarrow> (None, st'))
      else (None, st))"

definition setRole :: "'w Goard \<Rightarrow> string \<Rightarrow> int64 \<Rightarrow> string \<Rightarrow> 'w state \<Rightarrow> error option \<times> 'w state" where
  "setRole g i account role s =
     (case InvokeSession (store s) i of Inl err \<Rightarrow> (Some err, s) | Inr acting \<Rightarrow>
      if \<not> s_admin acting then (Some ErrAccessDenied, s) else
     (case invoke (CallCredentialsByID account) (CredentialsByID (database g) account) s of
        (Inl err, s1) \<Rightarrow> (Some err, s1)
      | (Inr credentials, s1) \<Rightarrow>
      if role_held (c_roles credentials) role then (Some ErrRoleConflict, s1) else
     (let credentials' = credentials\<lparr>c_roles := c_roles credentials @ [role]\<rparr>
      in case invoke (CallUpdateCredentials credentials') (UpdateCredentials (database g) credentials') s1 of
           (Some err, s2) \<Rightarrow> (Some err, s2)
         | (None, s2) \<Rightarrow> on_store (ForEach (replace_credentials credentials')) s2)))"

definition unsetRole :: "'w Goard \<Rightarrow> string \<Rightarrow> int64 \<Rightarrow> string \<Rightarrow> 'w state \<Rightarrow> error option \<times> 'w state" where
  "unsetRole g i account role s =
     (case InvokeSession (store s) i of Inl err \<Rightarrow> (Some err, s) | Inr acting \<Rightarrow>
      if \<not> s_admin acting then (Some ErrAccessDenied, s) else
     (case invoke (CallCredentialsByID account) (CredentialsByID (database g) account) s of
        (Inl err, s1) \<Rightarrow> (Some err, s1)
      | (Inr credentials, s1) \<Rightarrow>
     (let credentials' = credentials\<lparr>c_roles := roles_without (c_roles credentials) role []\<rparr>
      in case invoke (CallUpdateCredentials credentials') (UpdateCredentials (database g) credentials') s1 of
           (Some err, s2) \<Rightarrow> (Some err, s2)
         | (None, s2) \<Rightarrow> on_store (ForEach (replace_credentials credentials')) s2)))"

section \<open>A concrete deployment\<close>

text \<open>
  A small deployment on which the operations are run on concrete inputs: the world is the
  clock, the repository knows the credentials of alice (id 42), the account provider hands
  out id 42 for the payload \<open>dup\<close> and 43 otherwise, a context that is never cancelled.
\<close>

definition demo_alice :: Credentials where
  "demo_alice = \<lparr>c_id = 42, c_login = ''alice'', c_passhash = ''hash-of-secret'', c_roles = [''user'']\<rparr>"

definition demo_app :: "int App" where
  "demo_app =
     \<lparr>CreateAccount = (\<lambda>payload w. (Inr \<lparr>GetID = (if payload = ''dup'' then 42 else 43)\<rparr>, w)),
      AccountByID = (\<lambda>i w. (Inr \<lparr>GetID = i\<rparr>, w)),
      DeleteAccount = (\<lambda>i w. (None, w))\<rparr>"

definition demo_database :: "int Database" where
  "demo_database =
     \<lparr>CredentialsByLogin = (\<lambda>lgn w. (if lgn = ''alice'' then Inr demo_alice else Inl ErrCredentialsNotFound, w)),
      CreateCredentials = (\<lambda>c w. (None, w)),
      CredentialsByID = (\<lambda>i w. (if i = 42 then Inr demo_alice else Inl ErrCredentialsNotFound, w)),
      UpdateCredentials = (\<lambda>c w. (None, w))\<rparr>"

definition demo_hasher :: "int Hasher" where
  "demo_hasher =
     \<lparr>Hash = (\<lambda>password w. (Inr (''hash-of-'' @ password), w)),
      Compare = (\<lambda>hash password w. (hash = ''hash-of-'' @ password, w))\<rparr>"

definition demo_config :: "duration \<Rightarrow> int Config" where
  "demo_config d =
     \<lparr>cfg_App = demo_app,
      cfg_Admin = \<lparr>a_Account = \<lparr>GetID = 0\<rparr>, a_Login = ''admin'', a_Password = ''123456''\<rparr>,
      cfg_Database = demo_database,
      cfg_Validator = noValidation,
      cfg_Hasher = demo_hasher,
      cfg_TTL = d,
      cfg_CI = 10 * 1000000000,
      cfg_Now = (\<lambda>w. (w, w)),
      cfg_uuid = (\<lambda>w. (''fresh'', w))\<rparr>"

definition demo :: "int Goard" where
  "demo = New (demo_config (5 * 3600 * 1000000000))"

definition demo_ctx :: "int Context" where
  "demo_ctx = (\<lambda>w. (None, w))"

text \<open>A session of alice, and one of an administrator, parametrised by id and expiry.\<close>

definition demo_session :: "string \<Rightarrow> time \<Rightarrow> Session" where
  "demo_session i e =
     \<lparr>s_id = i, s_account = \<lparr>GetID = 42\<rparr>, s_credentials = demo_alice,
      s_exp = e, s_iss = e - 5 * 3600 * 1000000000, s_admin = False\<rparr>"

definition demo_root :: "string \<Rightarrow> time \<Rightarrow> Session" where
  "demo_root i e =
     \<lparr>s_id = i, s_account = \<lparr>GetID = 0\<rparr>,
      s_credentials = \<lparr>c_id = 0, c_login = ''admin'', c_passhash = [], c_roles = [''admin'']\<rparr>,
      s_exp = e, s_iss = e - 5 * 3600 * 1000000000, s_admin = True\<rparr>"

definition demo_state :: "store \<Rightarrow> time \<Rightarrow> int state" where
  "demo_state st now = \<lparr>store = st, world = now, calls = [], goroutines = []\<rparr>"

section \<open>Properties\<close>

subsection \<open>The store and its iteration\<close>

lemma store_inv_filter: "store_inv st \<Longrightarrow> store_inv (filter P st)"
  by (auto simp: store_inv_def list_all_iff distinct_map_filter)

lemma set_update_subset: "set (AList.update k v al) \<subseteq> insert (k, v) (set al)"
  by (induction al) auto

lemma store_inv_update: "store_inv st \<Longrightarrow> store_inv (AList.update (s_id x) x st)"
  using set_update_subset [of "s_id x" x st]
  by (auto simp: store_inv_def list_all_iff AList.distinct_update)

lemma store_inv_value:
  "store_inv st \<Longrightarrow> (k, x) \<in> set st \<Longrightarrow> (k, y) \<in> set st \<Longrightarrow> x = y"
  by (auto simp: store_inv_def dest: eq_key_imp_eq_value)

lemma ForEach_loop_revoke:
  assumes cb: "\<And>x st. cb x st = (if P x then RevokeSession (s_id x) st else (None, st))"
  shows "ForEach_loop cb tmp st = (None, filter (\<lambda>kx. fst kx \<notin> s_id ` {x \<in> set tmp. P x}) st)"
proof (induction tmp arbitrary: st)
  case Nil
  show ?case by simp
next
  case (Cons x tmp)
  show ?case
  proof (cases "P x")
    case True
    have "ForEach_loop cb (x # tmp) st = ForEach_loop cb tmp (AList.delete (s_id x) st)"
      using True by (simp add: cb RevokeSession_def)
    also have "\<dots> = (None, filter (\<lambda>kx. fst kx \<notin> s_id ` {x \<in> set tmp. P x}) (AList.delete (s_id x) st))"
      by (rule Cons.IH)
    finally show ?thesis
      using True by (auto simp: AList.delete_eq intro!: filter_cong)
  next
    case False
    have "ForEach_loop cb (x # tmp) st = ForEach_loop cb tmp st"
      using False by (simp add: cb)
    also have "\<dots> = (None, filter (\<lambda>kx. fst kx \<notin> s_id ` {x \<in> set tmp. P x}) st)"
      by (rule Cons.IH)
    finally show ?thesis
      using False by (auto intro!: filter_cong)
  qed
qed

lemma ForEach_revoke:
  assumes cb: "\<And>x st. cb x st = (if P x then RevokeSession (s_id x) st else (None, st))"
    and inv: "store_inv st"
  shows "ForEach cb st = (None, filter (\<lambda>kx. \<not> P (snd kx)) st)"
proof -
  have "fst kx \<in> s_id ` {x \<in> set (map snd st). P x} \<longleftrightarrow> P (snd kx)" if "kx \<in> set st" for kx
  proof
    assume "fst kx \<in> s_id ` {x \<in> set (map snd st). P x}"
    then obtain k x where kx: "(k, x) \<in> set st" "P x" "s_id x = fst kx" by auto
    from inv kx(1) have "s_id x = k" by (auto simp: store_inv_def list_all_iff)
    with kx have "(fst kx, x) \<in> set st" by simp
    moreover have "(fst kx, snd kx) \<in> set st" using that by simp
    ultimately have "x = snd kx" using inv store_inv_value by blast
    with kx(2) show "P (snd kx)" by simp
  next
    assume p: "P (snd kx)"
    from inv that have "s_id (snd kx) = fst kx" by (auto simp: store_inv_def list_all_iff)
    moreover have "snd kx \<in> set (map snd st)" using that by force
    ultimately show "fst kx \<in> s_id ` {x \<in> set (map snd st). P x}" using p by force
  qed
  then show ?thesis
    unfolding ForEach_def ForEach_loop_revoke [of cb P, OF cb]
    by (auto intro!: filter_cong)
qed

lemma update_past_prefix:
  "k \<notin> fst ` set xs \<Longrightarrow> AList.update k v (xs @ (k, w) # ys) = xs @ (k, v) # ys"
  by (induction xs) auto

lemma ForEach_loop_replace:
  assumes "distinct (map fst (done @ todo))"
    and "list_all (\<lambda>(k, x). s_id x = k) todo"
  shows "ForEach_loop (replace_credentials c) (map snd todo)
           (map (\<lambda>(k, x). (k, if c_id (s_credentials x) = c_id c then x\<lparr>s_credentials := c\<rparr> else x)) done @ todo)
         = (None, map (\<lambda>(k, x). (k, if c_id (s_credentials x) = c_id c then x\<lparr>s_credentials := c\<rparr> else x)) (done @ todo))"
  using assms
proof (induction todo arbitrary: "done")
  case Nil
  show ?case by simp
next
  case (Cons kx todo)
  obtain k x where kx: "kx = (k, x)" by (cases kx)
  let ?f = "\<lambda>(k, x). (k, if c_id (s_credentials x) = c_id c then x\<lparr>s_credentials := c\<rparr> else x)"
  from Cons.prems kx have key: "s_id x = k" and rest: "list_all (\<lambda>(k, x). s_id x = k) todo"
    by auto
  from Cons.prems kx have fresh: "k \<notin> fst ` set (map ?f done)"
    by (auto simp: image_iff split: prod.splits)
  have dist: "distinct (map fst ((done @ [kx]) @ todo))" using Cons.prems by simp
  have step: "replace_credentials c x (map ?f done @ (k, x) # todo)
      = (None, map ?f (done @ [(k, x)]) @ todo)"
  proof -
    have r: "\<lparr>s_id = s_id x, s_account = s_account x, s_credentials = c, s_exp = s_exp x,
        s_iss = s_iss x, s_admin = s_admin x\<rparr> = x\<lparr>s_credentials := c\<rparr>"
      by simp
    show ?thesis
      unfolding replace_credentials_def CreateSession_def r
      using update_past_prefix [OF fresh, of "x\<lparr>s_credentials := c\<rparr>" x todo] key
      by simp
  qed
  have "ForEach_loop (replace_credentials c) (map snd (kx # todo)) (map ?f done @ kx # todo)
      = ForEach_loop (replace_credentials c) (map snd todo) (map ?f (done @ [kx]) @ todo)"
    using step kx by simp
  also have "\<dots> = (None, map ?f ((done @ [kx]) @ todo))"
    by (rule Cons.IH [OF dist rest])
  finally show ?case by simp
qed

lemma ForEach_replace:
  assumes "store_inv st"
  shows "ForEach (replace_credentials c) st
    = (None, map (\<lambda>(k, x). (k, if c_id (s_credentials x) = c_id c then x\<lparr>s_credentials := c\<rparr> else x)) st)"
  using ForEach_loop_replace [of "[]" st c] assms
  by (simp add: ForEach_def store_inv_def)

subsection \<open>Frames of the steps; the store after sign-in\<close>

lemma ambient_frame:
  "ambient f s = (r, s') \<Longrightarrow> store s' = store s \<and> calls s' = calls s \<and> goroutines s' = goroutines s"
  by (auto simp: ambient_def split: prod.splits)

lemma invoke_frame:
  "invoke c f s = (r, s') \<Longrightarrow> store s' = store s \<and> calls s' = calls s @ [c] \<and> goroutines s' = goroutines s"
  by (auto simp: invoke_def split: prod.splits)

lemma on_store_frame:
  "on_store f s = (r, s') \<Longrightarrow> (r, store s') = f (store s) \<and> calls s' = calls s \<and> goroutines s' = goroutines s \<and> world s' = world s"
  by (auto simp: on_store_def split: prod.splits)

lemma revoke_login_filter:
  "store_inv st \<Longrightarrow> ForEach (revoke_login L) st
     = (None, filter (\<lambda>kx. c_login (s_credentials (snd kx)) \<noteq> L) st)"
  using ForEach_revoke [of "revoke_login L" "\<lambda>x. c_login (s_credentials x) = L" st]
  by (simp add: revoke_login_def)

lemma signinAsAdmin_store:
  assumes "signinAsAdmin g ctx s = (r, s')"
  shows "case r of Inr new \<Rightarrow> store s' = AList.update (s_id new) new (store s) | Inl e \<Rightarrow> store s' = store s"
  using assms unfolding signinAsAdmin_def
  by (auto simp: Let_def CreateSession_def split: prod.splits option.splits sum.splits
      dest!: ambient_frame on_store_frame)

lemma revoke_login_total: "fst (ForEach (revoke_login L) st) = None"
  unfolding ForEach_def
  using ForEach_loop_revoke [of "revoke_login L" "\<lambda>x. c_login (s_credentials x) = L" "map snd st" st]
  by (simp add: revoke_login_def)

lemma signin_store_raw:
  assumes run: "signin g ctx L p s = (r, s')"
  shows "case r of
           Inr new \<Rightarrow> store s' = AList.update (s_id new) new (snd (ForEach (revoke_login L) (store s)))
         | Inl e \<Rightarrow> store s' = snd (ForEach (revoke_login L) (store s))
               \<or> (store s' = store s \<and> (L = [] \<or> p = [] \<or> fst (ctx (world s)) \<noteq> None))"
proof (cases "L = [] \<or> p = []")
  case True
  with run show ?thesis by (auto simp: signin_def)
next
  case False
  show ?thesis
  proof (cases "ambient ctx s")
    case (Pair c1 s1)
    show ?thesis
    proof (cases c1)
      case (Some e)
      with run False Pair show ?thesis by (auto simp: signin_def ambient_def split: prod.splits)
    next
      case None
      from Pair have st1: "store s1 = store s" by (auto dest: ambient_frame)
      obtain s2 where s2: "on_store (ForEach (revoke_login L)) s1 = (None, s2)"
        and st2: "store s2 = snd (ForEach (revoke_login L) (store s))"
        using revoke_login_total [of L "store s"] st1
        by (cases "ForEach (revoke_login L) (store s)") (auto simp: on_store_def)
      from run False Pair None s2 show ?thesis
        unfolding signin_def
        by (auto simp: Let_def CreateSession_def st2 split: prod.splits option.splits sum.splits if_splits bool.splits
            dest!: ambient_frame on_store_frame invoke_frame signinAsAdmin_store)
    qed
  qed
qed

lemma signin_store:
  assumes run: "signin g ctx L p s = (r, s')" and inv: "store_inv (store s)"
  shows "case r of
           Inr new \<Rightarrow> store s' = AList.update (s_id new) new (filter (\<lambda>kx. c_login (s_credentials (snd kx)) \<noteq> L) (store s))
         | Inl e \<Rightarrow> store s' = filter (\<lambda>kx. c_login (s_credentials (snd kx)) \<noteq> L) (store s)
               \<or> (store s' = store s \<and> (L = [] \<or> p = [] \<or> fst (ctx (world s)) \<noteq> None))"
proof -
  have "snd (ForEach (revoke_login L) (store s))
      = filter (\<lambda>kx. c_login (s_credentials (snd kx)) \<noteq> L) (store s)"
    by (simp add: revoke_login_filter [OF inv])
  with signin_store_raw [OF run] show ?thesis by (simp split: sum.splits)
qed

subsection \<open>diffSlices\<close>

lemma fold_insert_set: "fold insert xs A = set xs \<union> A"
  by (induction xs arbitrary: A) auto

lemma fold_append_unless: "fold (\<lambda>item acc. if item \<in> M then acc else acc @ [item]) xs acc0
    = acc0 @ filter (\<lambda>item. item \<notin> M) xs"
  by (induction xs arbitrary: acc0) auto

text \<open>
  C8: \<open>diffSlices old new\<close> returns as \<open>toDelete\<close> the elements of \<open>old\<close> that are not in
  \<open>new\<close> and as \<open>toAdd\<close> the elements of \<open>new\<close> that are not in \<open>old\<close>, each in the order
  of the slice it is taken from; for \<open>old = [a, b]\<close> and \<open>new = [b, c]\<close> this is
  \<open>toDelete = [a]\<close>, \<open>toAdd = [c]\<close>.
\<close>

theorem diffSlices_spec:
  "diffSlices old new = (filter (\<lambda>x. x \<notin> set new) old, filter (\<lambda>x. x \<notin> set old) new)
   \<and> set (fst (diffSlices old new)) = set old - set new
   \<and> set (snd (diffSlices old new)) = set new - set old
   \<and> diffSlices [''a'', ''b''] [''b'', ''c''] = ([''a''], [''c''])"
proof -
  have eq: "\<And>old new. diffSlices old new
      = (filter (\<lambda>x. x \<notin> set new) old, filter (\<lambda>x. x \<notin> set old) new)"
    by (simp add: diffSlices_def Let_def fold_insert_set fold_append_unless)
  have "set (fst (diffSlices old new)) = set old - set new"
    unfolding eq by auto
  moreover have "set (snd (diffSlices old new)) = set new - set old"
    unfolding eq by auto
  moreover have "diffSlices [''a'', ''b''] [''b'', ''c''] = ([''a''], [''c''])"
    unfolding eq by simp
  ultimately show ?thesis using eq by blast
qed

subsection \<open>Running the concrete deployment\<close>

lemma demo_simps:
  "ttl demo = 18000000000000"
  "admin demo = \<lparr>a_Account = \<lparr>GetID = 0\<rparr>, a_Login = ''admin'', a_Password = ''123456''\<rparr>"
  "app demo = demo_app" "database demo = demo_database" "hasher demo = demo_hasher"
  "validator demo = noValidation" "time_Now demo = (\<lambda>w. (w, w))" "uuid_New demo = (\<lambda>w. (''fresh'', w))"
  by (simp_all add: demo_def New_def demo_config_def Milliseconds_def DEFAULT_TTL_def)

lemmas run_simps = signin_def signinAsAdmin_def signup_def signup_steps_def signup_deferred_def
  ambient_def invoke_def on_store_def ForEach_def revoke_login_def RevokeSession_def CreateSession_def
  demo_ctx_def demo_state_def demo_session_def demo_root_def demo_alice_def demo_app_def
  demo_database_def demo_hasher_def noValidation_def Add_def Let_def

subsection \<open>Sign-in and the sessions of a login\<close>

lemma filter_update_fresh:
  "\<forall>e \<in> set xs. \<not> P e \<Longrightarrow> filter P (AList.update k v xs) = (if P (k, v) then [(k, v)] else [])"
  by (induction xs) auto

text \<open>
  C3: after a sign-in for login \<open>L\<close> has returned a session, the entries of the store whose
  credential login is \<open>L\<close> are at most one, the session just created (it is there when its
  credentials carry the login \<open>L\<close>, as on the admin path and with a repository that answers
  a lookup by login with that login); every session of \<open>L\<close> that was in the store before is
  gone. The run is sequential, from a store in which every session is filed under its id.
\<close>

theorem signin_one_session_per_login:
  assumes "store_inv (store s)" and "signin g ctx L p s = (Inr new, s')"
  shows "filter (\<lambda>kx. c_login (s_credentials (snd kx)) = L) (store s')
           = (if c_login (s_credentials new) = L then [(s_id new, new)] else [])
       \<and> length (filter (\<lambda>kx. c_login (s_credentials (snd kx)) = L) (store s')) \<le> 1
       \<and> store_inv (store s')"
proof -
  let ?F = "filter (\<lambda>kx. c_login (s_credentials (snd kx)) \<noteq> L) (store s)"
  from signin_store [OF assms(2) assms(1)]
  have st: "store s' = AList.update (s_id new) new ?F" by simp
  have eq: "filter (\<lambda>kx. c_login (s_credentials (snd kx)) = L) (store s')
           = (if c_login (s_credentials new) = L then [(s_id new, new)] else [])"
    unfolding st by (subst filter_update_fresh) auto
  have "store_inv (store s')"
    unfolding st using assms(1) by (intro store_inv_update store_inv_filter)
  with eq show ?thesis by simp
qed

theorem signin_one_session_per_login_witness:
  "filter (\<lambda>kx. c_login (s_credentials (snd kx)) = ''alice'')
     (store (snd (signin demo demo_ctx ''alice'' ''secret''
        (demo_state [(''old'', demo_session ''old'' 100), (''r'', demo_root ''r'' 200)] 7))))
   = [(''fresh'', \<lparr>s_id = ''fresh'', s_account = \<lparr>GetID = 42\<rparr>, s_credentials = demo_alice,
         s_exp = 18000000000007, s_iss = 7, s_admin = False\<rparr>)]"
proof -
  let ?s = "demo_state [(''old'', demo_session ''old'' 100), (''r'', demo_root ''r'' 200)] 7"
  let ?new = "\<lparr>s_id = ''fresh'', s_account = \<lparr>GetID = 42\<rparr>, s_credentials = demo_alice,
         s_exp = 18000000000007, s_iss = 7, s_admin = False\<rparr>"
  have inv: "store_inv (store ?s)"
    by (simp add: store_inv_def demo_state_def demo_session_def demo_root_def)
  obtain s' where run: "signin demo demo_ctx ''alice'' ''secret'' ?s = (Inr ?new, s')"
    by (simp add: run_simps demo_simps)
  from signin_one_session_per_login [OF inv run]
  have "filter (\<lambda>kx. c_login (s_credentials (snd kx)) = ''alice'') (store s') = [(''fresh'', ?new)]"
    by (simp add: demo_alice_def)
  then show ?thesis unfolding run by simp
qed

text \<open>
  C10: a sign-in with a non-empty login \<open>L\<close> and password, whose context is not cancelled
  when it starts, revokes the sessions of \<open>L\<close> before it authenticates: if it then fails,
  with any error (a mismatch, credentials not found, a collaborator's error, a later
  cancellation), the store is the old store without the sessions of \<open>L\<close>. No password is
  checked before the revocation, so a caller who does not know it ends the session of \<open>L\<close>.
\<close>

theorem signin_failure_still_revokes:
  assumes "store_inv (store s)" and "L \<noteq> []" and "p \<noteq> []" and "fst (ctx (world s)) = None"
    and "signin g ctx L p s = (Inl e, s')"
  shows "store s' = filter (\<lambda>kx. c_login (s_credentials (snd kx)) \<noteq> L) (store s)
       \<and> filter (\<lambda>kx. c_login (s_credentials (snd kx)) = L) (store s') = []"
proof -
  from signin_store [OF assms(5) assms(1)] assms(2-4)
  have "store s' = filter (\<lambda>kx. c_login (s_credentials (snd kx)) \<noteq> L) (store s)" by simp
  then show ?thesis by (simp add: filter_empty_conv)
qed

theorem signin_failure_still_revokes_witness:
  "fst (signin demo demo_ctx ''alice'' ''wrong''
        (demo_state [(''old'', demo_session ''old'' 100), (''r'', demo_root ''r'' 200)] 7)) = Inl ErrCredentialsMismatch
   \<and> store (snd (signin demo demo_ctx ''alice'' ''wrong''
        (demo_state [(''old'', demo_session ''old'' 100), (''r'', demo_root ''r'' 200)] 7)))
     = [(''r'', demo_root ''r'' 200)]"
proof -
  let ?s = "demo_state [(''old'', demo_session ''old'' 100), (''r'', demo_root ''r'' 200)] 7"
  have inv: "store_inv (store ?s)"
    by (simp add: store_inv_def demo_state_def demo_session_def demo_root_def)
  have poll: "fst (demo_ctx (world ?s)) = None" by (simp add: demo_ctx_def)
  obtain s' where run: "signin demo demo_ctx ''alice'' ''wrong'' ?s = (Inl ErrCredentialsMismatch, s')"
    by (simp add: run_simps demo_simps)
  have ne: "''alice'' \<noteq> []" "''wrong'' \<noteq> []" by simp_all
  from signin_failure_still_revokes [OF inv ne poll run]
  have "store s' = [(''r'', demo_root ''r'' 200)]"
    by (simp add: demo_state_def demo_session_def demo_root_def demo_alice_def)
  then show ?thesis unfolding run by simp
qed

subsection \<open>The admin path of sign-in\<close>

text \<open>
  On the admin path the session returned carries the roles \<open>[admin]\<close> and no collaborator
  is called; the field \<open>admin\<close> of the session is not set by \<open>signinAsAdmin\<close> (no code
  sets it), so it keeps Go's zero value.
\<close>

lemma signin_admin_path:
  assumes "L = a_Login (admin g)" and "p = a_Password (admin g)"
    and "signin g ctx L p s = (Inr x, s')"
  shows "s_admin x = False \<and> c_roles (s_credentials x) = [''admin''] \<and> calls s' = calls s"
  using assms unfolding signin_def signinAsAdmin_def
  by (auto simp: Let_def split: prod.splits option.splits sum.splits if_splits
      dest!: ambient_frame on_store_frame)

text \<open>
  C1, evaluated on the deployment: signing in with the login and password of the
  configured Admin returns a session with the roles \<open>[admin]\<close> and leaves the log of
  collaborator calls empty, but the \<open>admin\<close> flag of that session is false; a role grant
  by that very session is then refused with \<open>ErrAccessDenied\<close>.
\<close>

theorem signin_admin_flag_unset:
  "signin demo demo_ctx ''admin'' ''123456'' (demo_state [] 7)
     = (Inr \<lparr>s_id = ''fresh'', s_account = \<lparr>GetID = 0\<rparr>,
             s_credentials = \<lparr>c_id = 0, c_login = ''admin'', c_passhash = [], c_roles = [''admin'']\<rparr>,
             s_exp = 18000000000007, s_iss = 7, s_admin = False\<rparr>,
        \<lparr>store = [(''fresh'', \<lparr>s_id = ''fresh'', s_account = \<lparr>GetID = 0\<rparr>,
             s_credentials = \<lparr>c_id = 0, c_login = ''admin'', c_passhash = [], c_roles = [''admin'']\<rparr>,
             s_exp = 18000000000007, s_iss = 7, s_admin = False\<rparr>)],
         world = 7, calls = [], goroutines = []\<rparr>)
   \<and> fst (setRole demo ''fresh'' 42 ''editor''
          (snd (signin demo demo_ctx ''admin'' ''123456'' (demo_state [] 7)))) = Some ErrAccessDenied"
proof -
  have run: "signin demo demo_ctx ''admin'' ''123456'' (demo_state [] 7)
     = (Inr \<lparr>s_id = ''fresh'', s_account = \<lparr>GetID = 0\<rparr>,
             s_credentials = \<lparr>c_id = 0, c_login = ''admin'', c_passhash = [], c_roles = [''admin'']\<rparr>,
             s_exp = 18000000000007, s_iss = 7, s_admin = False\<rparr>,
        \<lparr>store = [(''fresh'', \<lparr>s_id = ''fresh'', s_account = \<lparr>GetID = 0\<rparr>,
             s_credentials = \<lparr>c_id = 0, c_login = ''admin'', c_passhash = [], c_roles = [''admin'']\<rparr>,
             s_exp = 18000000000007, s_iss = 7, s_admin = False\<rparr>)],
         world = 7, calls = [], goroutines = []\<rparr>)"
    by (simp add: run_simps demo_simps)
  show ?thesis unfolding run by (simp add: setRole_def InvokeSession_def)
qed

subsection \<open>The rollback of sign-up\<close>

text \<open>
  When the lookup by the new account's id finds a record, \<open>signup\<close> returns
  \<open>ErrCredentialsConflict\<close> while its variable \<open>err\<close> is nil (the lookup succeeded), so
  the deferred rollback does nothing: the calls made are the validation, the creation of
  the account and the lookup, and no \<open>DeleteAccount\<close>.
\<close>

lemma signup_conflict_on_id:
  assumes "ctx (world s) = (None, w1)" and "Validate (validator g) L p w1 = (True, w2)"
    and "ctx w2 = (None, w3)" and "CreateAccount (app g) payload w3 = (Inr acc, w4)"
    and "ctx w4 = (None, w5)" and "CredentialsByID (database g) (GetID acc) w5 = (Inr found, w6)"
  shows "signup g ctx payload L p s
    = (Some ErrCredentialsConflict,
       s\<lparr>world := w6, calls := calls s @ [CallValidate L p, CallCreateAccount payload,
                                             CallCredentialsByID (GetID acc)]\<rparr>)"
  using assms
  by (simp add: signup_def signup_steps_def signup_deferred_def ambient_def invoke_def)

text \<open>
  The rollback runs exactly when \<open>err\<close> is not nil at the return. A failing return with
  \<open>err\<close> nil is one of three: the context cancelled right after the account was created,
  the conflict on the id, the context cancelled right after the hash. Every other failure
  (the conflict on the login, a repository error of either lookup, a hash failure, a
  persist failure) returns with \<open>err\<close> set, and a success returns with \<open>err\<close> nil.
\<close>

lemma signup_steps_err_nil:
  assumes "signup_steps g ctx acc L p s = (ret, None, s')"
  shows "ret = None
       \<or> (ret \<noteq> None \<and> calls s' = calls s)
       \<or> (ret = Some ErrCredentialsConflict \<and> calls s' = calls s @ [CallCredentialsByID (GetID acc)])
       \<or> (ret \<noteq> None \<and> calls s' = calls s @ [CallCredentialsByID (GetID acc), CallCredentialsByLogin L, CallHash p])"
  using assms unfolding signup_steps_def
  by (auto simp: Let_def split: prod.splits option.splits sum.splits if_splits
      dest!: ambient_frame invoke_frame)

lemma signup_steps_success:
  assumes "signup_steps g ctx acc L p s = (None, err, s')"
  shows "err = None"
  using assms unfolding signup_steps_def
  by (auto simp: Let_def split: prod.splits option.splits sum.splits if_splits)

text \<open>
  C2, evaluated on the deployment: a sign-up whose new account gets an id (42) that already
  has credentials returns \<open>ErrCredentialsConflict\<close> and never calls \<open>DeleteAccount\<close>; the
  sibling conflict, on the login (alice), returns the same error and does call
  \<open>DeleteAccount\<close> with the new id (43).
\<close>

theorem signup_conflict_on_id_no_rollback:
  "signup demo demo_ctx ''dup'' ''bob'' ''pw'' (demo_state [] 7)
     = (Some ErrCredentialsConflict,
        \<lparr>store = [], world = 7,
         calls = [CallValidate ''bob'' ''pw'', CallCreateAccount ''dup'', CallCredentialsByID 42],
         goroutines = []\<rparr>)
   \<and> signup demo demo_ctx ''new'' ''alice'' ''pw'' (demo_state [] 7)
     = (Some ErrCredentialsConflict,
        \<lparr>store = [], world = 7,
         calls = [CallValidate ''alice'' ''pw'', CallCreateAccount ''new'', CallCredentialsByID 43,
                  CallCredentialsByLogin ''alice'', CallDeleteAccount 43],
         goroutines = []\<rparr>)"
  by (simp add: run_simps demo_simps)

subsection \<open>Session validation\<close>

lemma Unix_mono: "a \<le> b \<Longrightarrow> Unix a \<le> Unix b"
  by (simp add: Unix_def zdiv_mono1)

text \<open>
  C4 (amended): \<open>session\<close> fails with \<open>ErrSessionNotFound\<close> on an empty store and on an
  id that is not in the store; on a session whose expiry falls in the Unix second of the
  current time or an earlier one (so on every session whose expiry is at or before the
  current time) it fails with \<open>ErrSessionExpired\<close>, having started the revocation as a
  goroutine and left the store as it was; on a session whose expiry falls in a later Unix
  second it returns the stored session and changes nothing.
\<close>

theorem session_validation:
  "(store s = [] \<longrightarrow> session g i s = (Inl ErrSessionNotFound, s))
 \<and> (map_of (store s) i = None \<longrightarrow>
       fst (session g i s) = Inl ErrSessionNotFound \<and> store (snd (session g i s)) = store s
       \<and> goroutines (snd (session g i s)) = goroutines s)
 \<and> (map_of (store s) i = Some x \<and> Unix (s_exp x) \<le> Unix (fst (time_Now g (world s))) \<longrightarrow>
       fst (session g i s) = Inl ErrSessionExpired \<and> store (snd (session g i s)) = store s
       \<and> goroutines (snd (session g i s)) = goroutines s @ [GoRevokeSession i]
       \<and> map_of (run_goroutine (GoRevokeSession i) (store s)) i = None)
 \<and> (map_of (store s) i = Some x \<and> s_exp x \<le> fst (time_Now g (world s)) \<longrightarrow>
       fst (session g i s) = Inl ErrSessionExpired)
 \<and> (map_of (store s) i = Some x \<and> Unix (fst (time_Now g (world s))) < Unix (s_exp x) \<longrightarrow>
       fst (session g i s) = Inr x \<and> store (snd (session g i s)) = store s
       \<and> goroutines (snd (session g i s)) = goroutines s)"
proof -
  have nonempty: "store s \<noteq> []" if "map_of (store s) i = Some x"
    using that by auto
  have a: "store s = [] \<longrightarrow> session g i s = (Inl ErrSessionNotFound, s)"
    by (simp add: session_def Count_def)
  have b: "map_of (store s) i = None \<longrightarrow>
       fst (session g i s) = Inl ErrSessionNotFound \<and> store (snd (session g i s)) = store s
       \<and> goroutines (snd (session g i s)) = goroutines s"
    by (simp add: session_def Count_def ambient_def InvokeSession_def split: prod.splits)
  have c: "map_of (store s) i = Some x \<and> Unix (s_exp x) \<le> Unix (fst (time_Now g (world s))) \<longrightarrow>
       fst (session g i s) = Inl ErrSessionExpired \<and> store (snd (session g i s)) = store s
       \<and> goroutines (snd (session g i s)) = goroutines s @ [GoRevokeSession i]
       \<and> map_of (run_goroutine (GoRevokeSession i) (store s)) i = None"
    using nonempty
    by (auto simp: session_def Count_def ambient_def InvokeSession_def RevokeSession_def
        AList.delete_conv' split: prod.splits)
  have d: "map_of (store s) i = Some x \<and> s_exp x \<le> fst (time_Now g (world s)) \<longrightarrow>
       fst (session g i s) = Inl ErrSessionExpired"
    using c Unix_mono by blast
  have e: "map_of (store s) i = Some x \<and> Unix (fst (time_Now g (world s))) < Unix (s_exp x) \<longrightarrow>
       fst (session g i s) = Inr x \<and> store (snd (session g i s)) = store s
       \<and> goroutines (snd (session g i s)) = goroutines s"
    using nonempty
    by (auto simp: session_def Count_def ambient_def InvokeSession_def split: prod.splits)
  from a b c d e show ?thesis by blast
qed

lemmas run_simps2 = session_def cleanup_tick_def revoke_expired_def Count_def InvokeSession_def Unix_def
  setRole_def unsetRole_def replace_credentials_def

theorem session_validation_witness:
  "session demo ''t1'' (demo_state [] 7) = (Inl ErrSessionNotFound, demo_state [] 7)
 \<and> fst (session demo ''t9'' (demo_state [(''t1'', demo_session ''t1'' 2500000000)] 1200000000)) = Inl ErrSessionNotFound
 \<and> fst (session demo ''t1'' (demo_state [(''t1'', demo_session ''t1'' 1000000000)] 1200000000)) = Inl ErrSessionExpired
 \<and> goroutines (snd (session demo ''t1'' (demo_state [(''t1'', demo_session ''t1'' 1000000000)] 1200000000)))
      = [GoRevokeSession ''t1'']
 \<and> fst (session demo ''t1'' (demo_state [(''t1'', demo_session ''t1'' 2500000000)] 1200000000))
      = Inr (demo_session ''t1'' 2500000000)"
proof -
  let ?empty = "demo_state [] 7"
  let ?late = "demo_state [(''t1'', demo_session ''t1'' 1000000000)] 1200000000"
  let ?live = "demo_state [(''t1'', demo_session ''t1'' 2500000000)] 1200000000"
  have h1: "store ?empty = []" by (simp add: demo_state_def)
  have h2: "map_of (store ?live) ''t9'' = None" by (simp add: demo_state_def)
  have h3: "map_of (store ?late) ''t1'' = Some (demo_session ''t1'' 1000000000)
      \<and> Unix (s_exp (demo_session ''t1'' 1000000000)) \<le> Unix (fst (time_Now demo (world ?late)))"
    by (simp add: demo_state_def demo_session_def demo_simps Unix_def)
  have h5: "map_of (store ?live) ''t1'' = Some (demo_session ''t1'' 2500000000)
      \<and> Unix (fst (time_Now demo (world ?live))) < Unix (s_exp (demo_session ''t1'' 2500000000))"
    by (simp add: demo_state_def demo_session_def demo_simps Unix_def)
  from session_validation [where s = ?empty and g = demo and i = "''t1''"] h1
  have r1: "session demo ''t1'' ?empty = (Inl ErrSessionNotFound, ?empty)" by blast
  from session_validation [where s = ?live and g = demo and i = "''t9''"] h2
  have r2: "fst (session demo ''t9'' ?live) = Inl ErrSessionNotFound" by blast
  from session_validation [where s = ?late and g = demo and i = "''t1''" and x = "demo_session ''t1'' 1000000000"] h3
  have r3: "fst (session demo ''t1'' ?late) = Inl ErrSessionExpired
      \<and> goroutines (snd (session demo ''t1'' ?late)) = goroutines ?late @ [GoRevokeSession ''t1'']"
    by blast
  from session_validation [where s = ?live and g = demo and i = "''t1''" and x = "demo_session ''t1'' 2500000000"] h5
  have r5: "fst (session demo ''t1'' ?live) = Inr (demo_session ''t1'' 2500000000)" by blast
  from r1 r2 r3 r5 show ?thesis by (simp add: demo_state_def)
qed

text \<open>
  The claim as stated fails within a second: at 1.2 s a session that expires at 1.5 s is
  still strictly in the future, and \<open>session\<close> reports it expired.
\<close>

theorem session_same_second_counterexample:
  "map_of (store (demo_state [(''t1'', demo_session ''t1'' 1500000000)] 1200000000)) ''t1''
      = Some (demo_session ''t1'' 1500000000)
 \<and> fst (time_Now demo (world (demo_state [(''t1'', demo_session ''t1'' 1500000000)] 1200000000)))
      < s_exp (demo_session ''t1'' 1500000000)
 \<and> fst (session demo ''t1'' (demo_state [(''t1'', demo_session ''t1'' 1500000000)] 1200000000))
      = Inl ErrSessionExpired"
  by (simp add: run_simps run_simps2 demo_simps)

subsection \<open>The expiry sweeper\<close>

lemma revoke_expired_filter:
  "store_inv st \<Longrightarrow> ForEach (revoke_expired t) st
     = (None, filter (\<lambda>kx. Unix t < Unix (s_exp (snd kx))) st)"
  using ForEach_revoke [of "revoke_expired t" "\<lambda>x. \<not> Unix t < Unix (s_exp x)" st]
  by (simp add: revoke_expired_def)

text \<open>
  C9 (amended): one tick of the sweeper at tick time \<open>t\<close> does nothing on an empty store;
  otherwise it revokes every session whose expiry falls in the Unix second of \<open>t\<close> or an
  earlier one (so every session whose expiry is at or before \<open>t\<close>) and leaves every session
  whose expiry falls in a later Unix second in the store, untouched. It never fails.
\<close>

theorem cleanup_tick_sweep:
  assumes "store_inv st"
  shows "cleanup_tick t st = (None, filter (\<lambda>kx. Unix t < Unix (s_exp (snd kx))) st)
       \<and> (\<forall>kx \<in> set st. Unix (s_exp (snd kx)) \<le> Unix t \<longrightarrow> map_of (snd (cleanup_tick t st)) (fst kx) = None)
       \<and> (\<forall>kx \<in> set st. s_exp (snd kx) \<le> t \<longrightarrow> map_of (snd (cleanup_tick t st)) (fst kx) = None)
       \<and> (\<forall>kx \<in> set st. Unix t < Unix (s_exp (snd kx)) \<longrightarrow>
            map_of (snd (cleanup_tick t st)) (fst kx) = Some (snd kx))
       \<and> cleanup_tick t NewStore = (None, NewStore)"
proof -
  let ?keep = "\<lambda>kx. Unix t < Unix (s_exp (snd kx))"
  have eq: "cleanup_tick t st = (None, filter ?keep st)"
    using revoke_expired_filter [OF assms, of t]
    by (cases st) (simp_all add: cleanup_tick_def Count_def ForEach_def)
  have dist: "distinct (map fst st)" "distinct (map fst (filter ?keep st))"
    using assms by (simp_all add: store_inv_def distinct_map_filter)
  have gone: "map_of (filter ?keep st) (fst kx) = None"
    if "kx \<in> set st" "Unix (s_exp (snd kx)) \<le> Unix t" for kx
  proof (rule ccontr)
    assume "map_of (filter ?keep st) (fst kx) \<noteq> None"
    then obtain y where "map_of (filter ?keep st) (fst kx) = Some y" by auto
    then have y: "(fst kx, y) \<in> set st" "?keep (fst kx, y)"
      by (auto dest!: map_of_SomeD)
    moreover have "(fst kx, snd kx) \<in> set st" using that(1) by simp
    ultimately have "y = snd kx" using assms store_inv_value by blast
    with y(2) that(2) show False by simp
  qed
  have kept: "map_of (filter ?keep st) (fst kx) = Some (snd kx)"
    if "kx \<in> set st" "?keep kx" for kx
  proof -
    have "(fst kx, snd kx) \<in> set (filter ?keep st)" using that by simp
    then show ?thesis using dist(2) by (simp only: map_of_is_SomeI)
  qed
  have early: "Unix (s_exp (snd kx)) \<le> Unix t" if "s_exp (snd kx) \<le> t" for kx :: "string \<times> Session"
    using that by (rule Unix_mono)
  have empty: "cleanup_tick t NewStore = (None, NewStore)"
    by (simp add: cleanup_tick_def NewStore_def Count_def)
  from eq gone kept early empty show ?thesis by simp
qed

theorem cleanup_tick_sweep_witness:
  "cleanup_tick 3000000000
     [(''t1'', demo_session ''t1'' 1500000000), (''t2'', demo_session ''t2'' 3000000000),
      (''t3'', demo_session ''t3'' 4200000000)]
   = (None, [(''t3'', demo_session ''t3'' 4200000000)])"
proof -
  let ?st = "[(''t1'', demo_session ''t1'' 1500000000), (''t2'', demo_session ''t2'' 3000000000),
      (''t3'', demo_session ''t3'' 4200000000)]"
  have inv: "store_inv ?st" by (simp add: store_inv_def demo_session_def)
  from cleanup_tick_sweep [OF inv, of 3000000000]
  have "cleanup_tick 3000000000 ?st = (None, filter (\<lambda>kx. Unix 3000000000 < Unix (s_exp (snd kx))) ?st)"
    by blast
  then show ?thesis by (simp add: Unix_def demo_session_def)
qed

text \<open>
  The claim as stated fails within a second: the tick at 1.2 s revokes a session that
  expires at 1.5 s, strictly after the tick time.
\<close>

theorem cleanup_tick_same_second_counterexample:
  "(1200000000 :: time) < s_exp (demo_session ''t1'' 1500000000)
 \<and> cleanup_tick 1200000000 [(''t1'', demo_session ''t1'' 1500000000)] = (None, [])"
  by (simp add: cleanup_tick_def revoke_expired_def Count_def ForEach_def RevokeSession_def
      Unix_def demo_session_def)

subsection \<open>Expiry of the sessions in the store\<close>

lemma ForEach_loop_pres:
  assumes step: "\<And>x st r st'. x \<in> set tmp \<Longrightarrow> list_all Q st \<Longrightarrow> cb x st = (r, st') \<Longrightarrow> list_all Q st'"
    and "list_all Q st"
  shows "list_all Q (snd (ForEach_loop cb tmp st))"
  using assms
proof (induction tmp arbitrary: st)
  case Nil
  then show ?case by simp
next
  case (Cons x tmp)
  obtain r st' where c: "cb x st = (r, st')" by (cases "cb x st")
  have q: "list_all Q st'" using Cons.prems(1) [of x st r st'] Cons.prems(2) c by simp
  show ?case
  proof (cases r)
    case None
    have "list_all Q (snd (ForEach_loop cb tmp st'))"
      by (rule Cons.IH) (use Cons.prems(1) q in auto)
    with c None show ?thesis by simp
  next
    case (Some e)
    with c q show ?thesis by simp
  qed
qed

lemma list_all_update: "list_all Q st \<Longrightarrow> Q (k, v) \<Longrightarrow> list_all Q (AList.update k v st)"
  using set_update_subset [of k v st] by (auto simp: list_all_iff)

lemma list_all_delete: "list_all Q st \<Longrightarrow> list_all Q (AList.delete k st)"
  by (auto simp: list_all_iff AList.delete_eq)

lemma ForEach_revoke_pres:
  assumes "\<And>x st. cb x st = (if P x then RevokeSession (s_id x) st else (None, st))"
    and "list_all Q st"
  shows "list_all Q (snd (ForEach cb st))"
  unfolding ForEach_def
  by (rule ForEach_loop_pres [OF _ assms(2)])
     (auto simp: assms(1) RevokeSession_def list_all_delete split: if_splits)

lemma ForEach_replace_pres:
  assumes "list_all (\<lambda>kx. R (s_iss (snd kx)) (s_exp (snd kx))) st"
  shows "list_all (\<lambda>kx. R (s_iss (snd kx)) (s_exp (snd kx))) (snd (ForEach (replace_credentials c) st))"
  unfolding ForEach_def
proof (rule ForEach_loop_pres [OF _ assms])
  fix x st0 r st'
  assume x: "x \<in> set (map snd st)" and q: "list_all (\<lambda>kx. R (s_iss (snd kx)) (s_exp (snd kx))) st0"
    and c: "replace_credentials c x st0 = (r, st')"
  from x assms have "R (s_iss x) (s_exp x)" by (auto simp: list_all_iff)
  with q c show "list_all (\<lambda>kx. R (s_iss (snd kx)) (s_exp (snd kx))) st'"
    by (auto simp: replace_credentials_def CreateSession_def intro!: list_all_update split: if_splits)
qed

lemma signin_new_session:
  assumes "signin g ctx L p s = (Inr new, s')"
  shows "s_exp new = s_iss new + ttl g"
  using assms unfolding signin_def signinAsAdmin_def
  by (auto simp: Let_def Add_def split: prod.splits option.splits sum.splits if_splits bool.splits)

lemma New_ttl_positive: "0 \<le> cfg_TTL config \<Longrightarrow> 0 < ttl (New config)"
  by (cases "cfg_TTL config = 0") (auto simp: New_def Milliseconds_def DEFAULT_TTL_def)


lemma setRole_store:
  "store (snd (setRole g i A role s)) = store s
   \<or> (\<exists>c. store (snd (setRole g i A role s)) = snd (ForEach (replace_credentials c) (store s)))"
  unfolding setRole_def
  by (auto simp: Let_def invoke_def on_store_def split: prod.splits option.splits sum.splits)
     (metis snd_conv)

lemma unsetRole_store:
  "store (snd (unsetRole g i A role s)) = store s
   \<or> (\<exists>c. store (snd (unsetRole g i A role s)) = snd (ForEach (replace_credentials c) (store s)))"
  unfolding unsetRole_def
  by (auto simp: Let_def invoke_def on_store_def split: prod.splits option.splits sum.splits)
     (metis snd_conv)

lemma signup_steps_store: "store (snd (snd (signup_steps g ctx acc L p s))) = store s"
  unfolding signup_steps_def
  by (simp add: Let_def invoke_def ambient_def split: prod.split option.split sum.split)

lemma signup_store: "store (snd (signup g ctx payload L p s)) = store s"
proof -
  have d: "store (signup_deferred g acc err s0) = store s0" for acc err s0
    by (simp add: signup_deferred_def invoke_def split: prod.split)
  show ?thesis
    unfolding signup_def
    by (simp add: Let_def invoke_def ambient_def d signup_steps_store case_prod_beta
        split: option.split sum.split bool.split)
qed

lemma signout_store:
  "store (snd (signout ctx i s)) = store s \<or> store (snd (signout ctx i s)) = AList.delete i (store s)"
  unfolding signout_def
  by (auto simp: ambient_def on_store_def RevokeSession_def split: prod.splits option.splits)

lemma session_store: "store (snd (session g i s)) = store s"
  unfolding session_def
  by (auto simp: Let_def ambient_def split: prod.splits sum.splits)

text \<open>
  C5 (amended): every session that sign-in returns, on the credential path and on the admin
  path, has \<open>exp = iss + ttl\<close>, hence \<open>iss < exp\<close> exactly when the ttl in force is
  positive; \<open>New\<close> makes it positive for every configured TTL that is not negative (a TTL
  of less than a millisecond becomes the default). And \<open>exp = iss + ttl\<close>, once true of every
  session in the store, stays true after sign-in, the role propagation of \<open>setRole\<close> and
  \<open>unsetRole\<close>, sign-out, validation, sign-up, a sweeper tick and a spawned revocation.
\<close>

theorem session_expiry_relation:
  assumes "list_all (\<lambda>kx. s_exp (snd kx) = s_iss (snd kx) + ttl g) (store s)"
  shows "(\<forall>new s'. signin g ctx L p s = (Inr new, s') \<longrightarrow>
            s_exp new = s_iss new + ttl g \<and> (s_iss new < s_exp new \<longleftrightarrow> 0 < ttl g))
       \<and> list_all (\<lambda>kx. s_exp (snd kx) = s_iss (snd kx) + ttl g) (store (snd (signin g ctx L p s)))
       \<and> list_all (\<lambda>kx. s_exp (snd kx) = s_iss (snd kx) + ttl g) (store (snd (setRole g i A role s)))
       \<and> list_all (\<lambda>kx. s_exp (snd kx) = s_iss (snd kx) + ttl g) (store (snd (unsetRole g i A role s)))
       \<and> list_all (\<lambda>kx. s_exp (snd kx) = s_iss (snd kx) + ttl g) (store (snd (signout ctx i s)))
       \<and> list_all (\<lambda>kx. s_exp (snd kx) = s_iss (snd kx) + ttl g) (store (snd (session g i s)))
       \<and> list_all (\<lambda>kx. s_exp (snd kx) = s_iss (snd kx) + ttl g) (store (snd (signup g ctx payload L p s)))
       \<and> list_all (\<lambda>kx. s_exp (snd kx) = s_iss (snd kx) + ttl g) (snd (cleanup_tick t (store s)))
       \<and> list_all (\<lambda>kx. s_exp (snd kx) = s_iss (snd kx) + ttl g) (run_goroutine gr (store s))
       \<and> (0 \<le> cfg_TTL config \<longrightarrow> 0 < ttl (New config))"
proof -
  let ?Q = "\<lambda>kx :: string \<times> Session. s_exp (snd kx) = s_iss (snd kx) + ttl g"
  note a = assms
  have rep: "list_all ?Q (snd (ForEach (replace_credentials c) (store s)))" for c
    using ForEach_replace_pres [of "\<lambda>i e. e = i + ttl g" "store s" c] a by simp
  have new: "\<forall>new s'. signin g ctx L p s = (Inr new, s') \<longrightarrow>
            s_exp new = s_iss new + ttl g \<and> (s_iss new < s_exp new \<longleftrightarrow> 0 < ttl g)"
    by (auto dest: signin_new_session)
  have rev: "list_all ?Q (snd (ForEach (revoke_login L) (store s)))"
    by (rule ForEach_revoke_pres [of _ "\<lambda>x. c_login (s_credentials x) = L", OF _ a])
       (simp add: revoke_login_def)
  have si: "list_all ?Q (store (snd (signin g ctx L p s)))"
  proof (cases "signin g ctx L p s")
    case (Pair r s')
    show ?thesis
    proof (cases r)
      case (Inl e)
      with signin_store_raw [OF Pair] rev a Pair show ?thesis by auto
    next
      case (Inr x)
      with Pair have "s_exp x = s_iss x + ttl g" by (auto dest: signin_new_session)
      with signin_store_raw [OF Pair] rev Inr Pair show ?thesis
        by (auto intro!: list_all_update)
    qed
  qed
  have sr: "list_all ?Q (store (snd (setRole g i A role s)))"
    using setRole_store [of g i A role s] rep a by auto
  have ur: "list_all ?Q (store (snd (unsetRole g i A role s)))"
    using unsetRole_store [of g i A role s] rep a by auto
  have so: "list_all ?Q (store (snd (signout ctx i s)))"
    using signout_store [of ctx i s] a by (auto intro: list_all_delete)
  have se: "list_all ?Q (store (snd (session g i s)))"
    using a by (simp add: session_store)
  have su: "list_all ?Q (store (snd (signup g ctx payload L p s)))"
    using a by (simp add: signup_store)
  have cl: "list_all ?Q (snd (cleanup_tick t (store s)))"
  proof (cases "Count (store s) = 0")
    case True
    with a show ?thesis by (simp add: cleanup_tick_def)
  next
    case False
    have "list_all ?Q (snd (ForEach (revoke_expired t) (store s)))"
      by (rule ForEach_revoke_pres [of _ "\<lambda>x. \<not> Unix t < Unix (s_exp x)", OF _ a])
         (simp add: revoke_expired_def)
    with False show ?thesis by (simp add: cleanup_tick_def)
  qed
  have rg: "list_all ?Q (run_goroutine gr (store s))"
    using a by (cases gr) (simp add: RevokeSession_def list_all_delete)
  have nw: "0 \<le> cfg_TTL config \<longrightarrow> 0 < ttl (New config)"
    by (simp add: New_ttl_positive)
  from new si sr ur so se su cl rg nw show ?thesis by blast
qed

theorem session_expiry_relation_witness:
  "fst (signin demo demo_ctx ''alice'' ''secret''
          (demo_state [(''r'', demo_root ''r'' 200), (''t1'', demo_session ''t1'' 100)] 7))
     = Inr \<lparr>s_id = ''fresh'', s_account = \<lparr>GetID = 42\<rparr>, s_credentials = demo_alice,
             s_exp = 18000000000007, s_iss = 7, s_admin = False\<rparr>
   \<and> (18000000000007 :: int) = 7 + ttl demo
   \<and> list_all (\<lambda>kx. s_exp (snd kx) = s_iss (snd kx) + ttl demo)
        (store (snd (setRole demo ''r'' 42 ''editor''
          (demo_state [(''r'', demo_root ''r'' 200), (''t1'', demo_session ''t1'' 100)] 7))))
   \<and> 0 < ttl (New (demo_config 0))"
proof -
  let ?s = "demo_state [(''r'', demo_root ''r'' 200), (''t1'', demo_session ''t1'' 100)] 7"
  let ?new = "\<lparr>s_id = ''fresh'', s_account = \<lparr>GetID = 42\<rparr>, s_credentials = demo_alice,
             s_exp = 18000000000007, s_iss = 7, s_admin = False\<rparr>"
  have h: "list_all (\<lambda>kx. s_exp (snd kx) = s_iss (snd kx) + ttl demo) (store ?s)"
    by (simp add: demo_state_def demo_root_def demo_session_def demo_simps)
  have c: "0 \<le> cfg_TTL (demo_config 0)" by (simp add: demo_config_def)
  obtain s' where run: "signin demo demo_ctx ''alice'' ''secret'' ?s = (Inr ?new, s')"
    by (simp add: run_simps demo_simps)
  note t = session_expiry_relation [OF h, where ctx = demo_ctx and L = "''alice''" and p = "''secret''"
      and i = "''r''" and A = 42 and role = "''editor''" and config = "demo_config 0"]
  from t run have "s_exp ?new = s_iss ?new + ttl demo" by blast
  moreover from t have "list_all (\<lambda>kx. s_exp (snd kx) = s_iss (snd kx) + ttl demo)
        (store (snd (setRole demo ''r'' 42 ''editor'' ?s)))" by blast
  moreover from t c have "0 < ttl (New (demo_config 0))" by blast
  ultimately show ?thesis unfolding run by simp
qed

text \<open>
  The claim as stated fails for a negative TTL, which \<open>New\<close> keeps: configured with minus
  one hour, sign-in at instant 7 returns a session that expires before it is issued.
\<close>

theorem session_expiry_negative_ttl_counterexample:
  "fst (signin (New (demo_config (- 3600000000000))) demo_ctx ''alice'' ''secret'' (demo_state [] 7))
     = Inr \<lparr>s_id = ''fresh'', s_account = \<lparr>GetID = 42\<rparr>, s_credentials = demo_alice,
             s_exp = - 3599999999993, s_iss = 7, s_admin = False\<rparr>
   \<and> \<not> s_iss \<lparr>s_id = ''fresh'', s_account = \<lparr>GetID = 42\<rparr>, s_credentials = demo_alice,
             s_exp = - 3599999999993, s_iss = 7, s_admin = False\<rparr>
        < s_exp \<lparr>s_id = ''fresh'', s_account = \<lparr>GetID = 42\<rparr>, s_credentials = demo_alice,
             s_exp = - 3599999999993, s_iss = 7, s_admin = False\<rparr>"
  by (simp add: run_simps New_def demo_config_def Milliseconds_def signed_divide_int_def)

subsection \<open>The role operations past the admin gate\<close>

lemma role_held_iff: "role_held rs role \<longleftrightarrow> role \<in> set rs"
  by (induction rs) auto

lemma roles_without_filter: "roles_without rs role acc = acc @ filter (\<lambda>r. r \<noteq> role) rs"
  by (induction rs arbitrary: acc) auto

lemma roles_without_absent: "role \<notin> set rs \<Longrightarrow> roles_without rs role [] = rs"
  by (auto simp: roles_without_filter filter_id_conv)

lemma ForEach_loop_total:
  "(\<And>x st. fst (cb x st) = None) \<Longrightarrow> fst (ForEach_loop cb tmp st) = None"
proof (induction tmp arbitrary: st)
  case Nil
  show ?case by simp
next
  case (Cons x tmp)
  obtain st' where "cb x st = (None, st')"
    using Cons.prems [of x st] by (cases "cb x st") auto
  then show ?case using Cons.IH [OF Cons.prems] by simp
qed

lemma replace_credentials_total: "fst (ForEach (replace_credentials c) st) = None"
  unfolding ForEach_def
  by (rule ForEach_loop_total) (simp add: replace_credentials_def CreateSession_def)

text \<open>
  Past the admin gate, that is for an acting session whose \<open>admin\<close> flag is set (a state
  of the model that no run of the program reaches, see the admin gate below), and with a
  repository that returns the target credentials: granting a role they already hold
  returns \<open>ErrRoleConflict\<close> after the lookup alone, \<open>UpdateCredentials\<close> is not called
  and the store is the same; revoking a role they do not hold writes the credentials back
  as they were loaded (\<open>diffSlices\<close> then finds nothing to delete or add) and returns
  what that write returns.
\<close>

lemma past_gate_held_and_absent:
  assumes "InvokeSession (store s) i = Inr acting" and "s_admin acting"
    and "CredentialsByID (database g) A (world s) = (Inr creds, w1)"
  shows "(role \<in> set (c_roles creds) \<longrightarrow>
            setRole g i A role s
              = (Some ErrRoleConflict, s\<lparr>world := w1, calls := calls s @ [CallCredentialsByID A]\<rparr>)
          \<and> store (snd (setRole g i A role s)) = store s)
       \<and> (role \<notin> set (c_roles creds) \<longrightarrow>
            fst (unsetRole g i A role s) = fst (UpdateCredentials (database g) creds w1)
          \<and> calls (snd (unsetRole g i A role s))
              = calls s @ [CallCredentialsByID A, CallUpdateCredentials creds]
          \<and> diffSlices (c_roles creds) (roles_without (c_roles creds) role []) = ([], []))"
proof -
  have held: "setRole g i A role s
      = (Some ErrRoleConflict, s\<lparr>world := w1, calls := calls s @ [CallCredentialsByID A]\<rparr>)"
    if "role \<in> set (c_roles creds)"
    using assms that by (simp add: setRole_def invoke_def role_held_iff)
  have absent: "fst (unsetRole g i A role s) = fst (UpdateCredentials (database g) creds w1)
      \<and> calls (snd (unsetRole g i A role s))
              = calls s @ [CallCredentialsByID A, CallUpdateCredentials creds]"
    if "role \<notin> set (c_roles creds)"
  proof (cases "UpdateCredentials (database g) creds w1")
    case (Pair r w2)
    show ?thesis
    proof (cases r)
      case None
      with Pair assms that show ?thesis
        using replace_credentials_total [of creds "store s"]
        by (cases "ForEach (replace_credentials creds) (store s)")
           (simp add: unsetRole_def invoke_def on_store_def roles_without_absent)
    next
      case (Some e)
      with Pair assms that show ?thesis
        by (simp add: unsetRole_def invoke_def roles_without_absent)
    qed
  qed
  have diff: "diffSlices (c_roles creds) (roles_without (c_roles creds) role []) = ([], [])"
    if "role \<notin> set (c_roles creds)"
    using that by (simp add: roles_without_absent diffSlices_def Let_def fold_insert_set fold_append_unless)
  from held absent diff show ?thesis by simp
qed


lemma past_gate_held_and_absent_example:
  "setRole demo ''r'' 42 ''user''
       (demo_state [(''r'', demo_root ''r'' 200), (''t1'', demo_session ''t1'' 100)] 7)
     = (Some ErrRoleConflict,
        \<lparr>store = [(''r'', demo_root ''r'' 200), (''t1'', demo_session ''t1'' 100)], world = 7,
         calls = [CallCredentialsByID 42], goroutines = []\<rparr>)
   \<and> fst (unsetRole demo ''r'' 42 ''editor''
       (demo_state [(''r'', demo_root ''r'' 200), (''t1'', demo_session ''t1'' 100)] 7)) = None
   \<and> calls (snd (unsetRole demo ''r'' 42 ''editor''
       (demo_state [(''r'', demo_root ''r'' 200), (''t1'', demo_session ''t1'' 100)] 7)))
     = [CallCredentialsByID 42, CallUpdateCredentials demo_alice]"
proof -
  let ?s = "demo_state [(''r'', demo_root ''r'' 200), (''t1'', demo_session ''t1'' 100)] 7"
  have acting: "InvokeSession (store ?s) ''r'' = Inr (demo_root ''r'' 200)"
    by (simp add: InvokeSession_def demo_state_def)
  have adm: "s_admin (demo_root ''r'' 200)" by (simp add: demo_root_def)
  have load: "CredentialsByID (database demo) 42 (world ?s) = (Inr demo_alice, 7)"
    by (simp add: demo_simps demo_database_def demo_state_def)
  have held: "''user'' \<in> set (c_roles demo_alice)" and absent: "''editor'' \<notin> set (c_roles demo_alice)"
    by (simp_all add: demo_alice_def)
  have upd: "fst (UpdateCredentials (database demo) demo_alice 7) = None"
    by (simp add: demo_simps demo_database_def)
  from past_gate_held_and_absent [OF acting adm load, of "''user''"] held
  have "setRole demo ''r'' 42 ''user'' ?s
      = (Some ErrRoleConflict, ?s\<lparr>world := 7, calls := calls ?s @ [CallCredentialsByID 42]\<rparr>)"
    by blast
  moreover from past_gate_held_and_absent [OF acting adm load, of "''editor''"] absent upd
  have "fst (unsetRole demo ''r'' 42 ''editor'' ?s) = None
      \<and> calls (snd (unsetRole demo ''r'' 42 ''editor'' ?s))
          = calls ?s @ [CallCredentialsByID 42, CallUpdateCredentials demo_alice]"
    by simp
  ultimately show ?thesis by (simp add: demo_state_def)
qed

subsection \<open>Propagation of a role change to the live sessions\<close>

lemma map_of_mapped:
  assumes "distinct (map fst st)" and "(k, x) \<in> set st"
  shows "map_of (map (\<lambda>(k, x). (k, h x)) st) k = Some (h x)"
  using assms by (simp add: map_of_map)

text \<open>
  Past the admin gate as well: when a grant or revoke for account id \<open>A\<close> returns nil (the
  repository answering the lookup by id with the record of that id), every session of the
  store whose credentials have the id \<open>A\<close> is replaced, under the same key, by the same
  session with the updated credentials, and every other session is unchanged.
\<close>

lemma past_gate_propagation:
  assumes "store_inv (store s)"
    and "CredentialsByID (database g) A (world s) = (Inr creds, w1)" and "c_id creds = A"
  shows "(setRole g i A role s = (None, s') \<longrightarrow>
            store s' = map (\<lambda>(k, x). (k, if c_id (s_credentials x) = A
                 then x\<lparr>s_credentials := creds\<lparr>c_roles := c_roles creds @ [role]\<rparr>\<rparr> else x)) (store s)
          \<and> (\<forall>kx \<in> set (store s). InvokeSession (store s') (fst kx)
                = Inr (if c_id (s_credentials (snd kx)) = A
                       then (snd kx)\<lparr>s_credentials := creds\<lparr>c_roles := c_roles creds @ [role]\<rparr>\<rparr>
                       else snd kx)))
       \<and> (unsetRole g i A role s = (None, s'') \<longrightarrow>
            store s'' = map (\<lambda>(k, x). (k, if c_id (s_credentials x) = A
                 then x\<lparr>s_credentials := creds\<lparr>c_roles := filter (\<lambda>r. r \<noteq> role) (c_roles creds)\<rparr>\<rparr> else x)) (store s)
          \<and> (\<forall>kx \<in> set (store s). InvokeSession (store s'') (fst kx)
                = Inr (if c_id (s_credentials (snd kx)) = A
                       then (snd kx)\<lparr>s_credentials := creds\<lparr>c_roles := filter (\<lambda>r. r \<noteq> role) (c_roles creds)\<rparr>\<rparr>
                       else snd kx)))"
proof -
  have dist: "distinct (map fst (store s))" using assms(1) by (simp add: store_inv_def)
  have look: "InvokeSession (map (\<lambda>(k, x). (k, h x)) (store s)) (fst kx) = Inr (h (snd kx))"
    if "kx \<in> set (store s)" for kx and h :: "Session \<Rightarrow> Session"
    using map_of_mapped [OF dist, of "fst kx" "snd kx" h] that by (simp add: InvokeSession_def)
  have spread: "ForEach (replace_credentials c) (store s)
      = (None, map (\<lambda>(k, x). (k, if c_id (s_credentials x) = A then x\<lparr>s_credentials := c\<rparr> else x)) (store s))"
    if "c_id c = A" for c
    using ForEach_replace [OF assms(1), of c] that by simp
  have grant: "store s' = map (\<lambda>(k, x). (k, if c_id (s_credentials x) = A
                 then x\<lparr>s_credentials := creds\<lparr>c_roles := c_roles creds @ [role]\<rparr>\<rparr> else x)) (store s)"
    if "setRole g i A role s = (None, s')"
    using that assms(2,3) spread [of "creds\<lparr>c_roles := c_roles creds @ [role]\<rparr>"]
    by (auto simp: setRole_def invoke_def on_store_def Let_def
        split: sum.splits if_splits option.splits prod.splits)
  have revoke: "store s'' = map (\<lambda>(k, x). (k, if c_id (s_credentials x) = A
                 then x\<lparr>s_credentials := creds\<lparr>c_roles := filter (\<lambda>r. r \<noteq> role) (c_roles creds)\<rparr>\<rparr> else x)) (store s)"
    if "unsetRole g i A role s = (None, s'')"
    using that assms(2,3) spread [of "creds\<lparr>c_roles := filter (\<lambda>r. r \<noteq> role) (c_roles creds)\<rparr>"]
    by (auto simp: unsetRole_def invoke_def on_store_def Let_def roles_without_filter
        split: sum.splits if_splits option.splits prod.splits)
  show ?thesis
    using grant revoke look by simp
qed


lemma past_gate_propagation_example:
  "store (snd (setRole demo ''r'' 42 ''editor''
       (demo_state [(''r'', demo_root ''r'' 9000000000), (''t1'', demo_session ''t1'' 5000000000)] 7)))
     = [(''r'', demo_root ''r'' 9000000000),
        (''t1'', (demo_session ''t1'' 5000000000)
                   \<lparr>s_credentials := demo_alice\<lparr>c_roles := [''user'', ''editor'']\<rparr>\<rparr>)]
   \<and> fst (session demo ''t1'' (snd (setRole demo ''r'' 42 ''editor''
       (demo_state [(''r'', demo_root ''r'' 9000000000), (''t1'', demo_session ''t1'' 5000000000)] 7))))
     = Inr ((demo_session ''t1'' 5000000000)\<lparr>s_credentials := demo_alice\<lparr>c_roles := [''user'', ''editor'']\<rparr>\<rparr>)
   \<and> store (snd (unsetRole demo ''r'' 42 ''user''
       (demo_state [(''r'', demo_root ''r'' 9000000000), (''t1'', demo_session ''t1'' 5000000000)] 7)))
     = [(''r'', demo_root ''r'' 9000000000),
        (''t1'', (demo_session ''t1'' 5000000000)\<lparr>s_credentials := demo_alice\<lparr>c_roles := []\<rparr>\<rparr>)]"
proof -
  let ?s = "demo_state [(''r'', demo_root ''r'' 9000000000), (''t1'', demo_session ''t1'' 5000000000)] 7"
  have inv: "store_inv (store ?s)"
    by (simp add: store_inv_def demo_state_def demo_session_def demo_root_def)
  have load: "CredentialsByID (database demo) 42 (world ?s) = (Inr demo_alice, 7)"
    by (simp add: demo_simps demo_database_def demo_state_def)
  have idc: "c_id demo_alice = 42" by (simp add: demo_alice_def)
  obtain s' where run: "setRole demo ''r'' 42 ''editor'' ?s = (None, s')"
    and frame: "world s' = 7" "goroutines s' = []"
    by (simp add: setRole_def InvokeSession_def invoke_def on_store_def ForEach_def
        replace_credentials_def CreateSession_def demo_simps demo_database_def demo_state_def
        demo_session_def demo_root_def demo_alice_def Let_def)
  obtain s'' where run': "unsetRole demo ''r'' 42 ''user'' ?s = (None, s'')"
    by (simp add: unsetRole_def InvokeSession_def invoke_def on_store_def ForEach_def
        replace_credentials_def CreateSession_def demo_simps demo_database_def demo_state_def
        demo_session_def demo_root_def demo_alice_def Let_def)
  note t = past_gate_propagation [OF inv load idc, of "''r''" _ s' s'']
  from t [of "''editor''"] run
  have st: "store s' = [(''r'', demo_root ''r'' 9000000000),
        (''t1'', (demo_session ''t1'' 5000000000)
                   \<lparr>s_credentials := demo_alice\<lparr>c_roles := [''user'', ''editor'']\<rparr>\<rparr>)]"
    by (simp add: demo_state_def demo_root_def demo_session_def demo_alice_def)
  from t [of "''user''"] run'
  have st': "store s'' = [(''r'', demo_root ''r'' 9000000000),
        (''t1'', (demo_session ''t1'' 5000000000)\<lparr>s_credentials := demo_alice\<lparr>c_roles := []\<rparr>\<rparr>)]"
    by (simp add: demo_state_def demo_root_def demo_session_def demo_alice_def)
  have "fst (session demo ''t1'' s')
     = Inr ((demo_session ''t1'' 5000000000)\<lparr>s_credentials := demo_alice\<lparr>c_roles := [''user'', ''editor'']\<rparr>\<rparr>)"
    by (simp add: session_def Count_def ambient_def InvokeSession_def st frame demo_simps Unix_def
        demo_session_def)
  with st st' show ?thesis unfolding run run' by simp
qed

subsection \<open>The invariant of the store\<close>

text \<open>
  The properties above that start from a store in which every session is filed once, under
  its own id, start from an invariant: the new store has it and every operation keeps it.
\<close>

lemma store_inv_NewStore: "store_inv NewStore"
  by (simp add: store_inv_def NewStore_def)

lemma store_inv_delete: "store_inv st \<Longrightarrow> store_inv (AList.delete k st)"
  by (simp add: AList.delete_eq store_inv_filter)

lemma store_inv_replaced:
  assumes "store_inv st"
  shows "store_inv (snd (ForEach (replace_credentials c) st))"
proof -
  let ?f = "\<lambda>(k, x). (k, if c_id (s_credentials x) = c_id c then x\<lparr>s_credentials := c\<rparr> else x)"
  have keys: "map fst (map ?f st) = map fst st"
    by (induction st) auto
  have "distinct (map fst (map ?f st))"
    unfolding keys using assms by (simp add: store_inv_def)
  moreover have "list_all (\<lambda>(k, x). s_id x = k) (map ?f st)"
    using assms by (auto simp: store_inv_def list_all_iff)
  ultimately show ?thesis
    unfolding ForEach_replace [OF assms] by (simp add: store_inv_def)
qed

lemma store_inv_revoked:
  assumes "\<And>x st. cb x st = (if P x then RevokeSession (s_id x) st else (None, st))"
    and "store_inv st"
  shows "store_inv (snd (ForEach cb st))"
  unfolding ForEach_revoke [of cb P, OF assms] using assms(2) by (simp add: store_inv_filter)

lemma store_inv_kept:
  assumes "store_inv (store s)"
  shows "store_inv (store (snd (signin g ctx L p s)))"
    and "store_inv (store (snd (signup g ctx payload L p s)))"
    and "store_inv (store (snd (signout ctx i s)))"
    and "store_inv (store (snd (session g i s)))"
    and "store_inv (snd (cleanup_tick t (store s)))"
    and "store_inv (store (snd (setRole g i A role s)))"
    and "store_inv (store (snd (unsetRole g i A role s)))"
    and "store_inv (run_goroutine gr (store s))"
proof -
  show "store_inv (store (snd (signin g ctx L p s)))"
  proof (cases "signin g ctx L p s")
    case (Pair r s')
    with signin_store [OF Pair assms] assms show ?thesis
      by (cases r) (auto intro!: store_inv_update store_inv_filter)
  qed
  show "store_inv (store (snd (signup g ctx payload L p s)))"
    using assms by (simp add: signup_store)
  show "store_inv (store (snd (signout ctx i s)))"
    using signout_store [of ctx i s] assms by (auto intro: store_inv_delete)
  show "store_inv (store (snd (session g i s)))"
    using assms by (simp add: session_store)
  show "store_inv (snd (cleanup_tick t (store s)))"
    using assms store_inv_revoked [of "revoke_expired t" "\<lambda>x. \<not> Unix t < Unix (s_exp x)" "store s"]
    by (simp add: cleanup_tick_def revoke_expired_def)
  show "store_inv (store (snd (setRole g i A role s)))"
    using setRole_store [of g i A role s] assms by (auto intro: store_inv_replaced)
  show "store_inv (store (snd (unsetRole g i A role s)))"
    using unsetRole_store [of g i A role s] assms by (auto intro: store_inv_replaced)
  show "store_inv (run_goroutine gr (store s))"
    using assms by (cases gr) (simp add: RevokeSession_def store_inv_delete)
qed

subsection \<open>The admin gate of the role operations\<close>

text \<open>
  No \<open>Session\<close> literal of the core sets the field \<open>admin\<close>, and the propagation only
  copies it: from the new store on, no session of the store has the flag, whatever the
  operations run. On such a store \<open>setRole\<close> and \<open>unsetRole\<close> return
  \<open>ErrSessionNotFound\<close> or \<open>ErrAccessDenied\<close> and change nothing.
\<close>

lemma ForEach_replace_keeps_flags:
  assumes "list_all (\<lambda>kx. \<not> s_admin (snd kx)) st"
  shows "list_all (\<lambda>kx. \<not> s_admin (snd kx)) (snd (ForEach (replace_credentials c) st))"
  unfolding ForEach_def
proof (rule ForEach_loop_pres [OF _ assms])
  fix x st0 r st'
  assume x: "x \<in> set (map snd st)" and q: "list_all (\<lambda>kx. \<not> s_admin (snd kx)) st0"
    and c: "replace_credentials c x st0 = (r, st')"
  from x assms have "\<not> s_admin x" by (auto simp: list_all_iff)
  with q c show "list_all (\<lambda>kx. \<not> s_admin (snd kx)) st'"
    by (auto simp: replace_credentials_def CreateSession_def intro!: list_all_update split: if_splits)
qed

lemma signin_new_not_admin:
  assumes "signin g ctx L p s = (Inr new, s')"
  shows "\<not> s_admin new"
  using assms unfolding signin_def signinAsAdmin_def
  by (auto simp: Let_def split: prod.splits option.splits sum.splits if_splits bool.splits)

lemma role_ops_denied:
  assumes "list_all (\<lambda>kx. \<not> s_admin (snd kx)) (store s)"
  shows "(setRole g i A role s = (Some ErrSessionNotFound, s) \<or> setRole g i A role s = (Some ErrAccessDenied, s))
       \<and> (unsetRole g i A role s = (Some ErrSessionNotFound, s) \<or> unsetRole g i A role s = (Some ErrAccessDenied, s))"
proof (cases "map_of (store s) i")
  case None
  then show ?thesis by (simp add: setRole_def unsetRole_def InvokeSession_def)
next
  case (Some acting)
  then have "(i, acting) \<in> set (store s)" by (rule map_of_SomeD)
  with assms have "\<not> s_admin acting" by (auto simp: list_all_iff)
  with Some show ?thesis by (simp add: setRole_def unsetRole_def InvokeSession_def)
qed

lemma no_admin_kept:
  assumes "list_all (\<lambda>kx. \<not> s_admin (snd kx)) (store s)"
  shows "list_all (\<lambda>kx. \<not> s_admin (snd kx)) NewStore
       \<and> list_all (\<lambda>kx. \<not> s_admin (snd kx)) (store (snd (signin g ctx L p s)))
       \<and> list_all (\<lambda>kx. \<not> s_admin (snd kx)) (store (snd (signup g ctx payload L p s)))
       \<and> list_all (\<lambda>kx. \<not> s_admin (snd kx)) (store (snd (signout ctx i s)))
       \<and> list_all (\<lambda>kx. \<not> s_admin (snd kx)) (store (snd (session g i s)))
       \<and> list_all (\<lambda>kx. \<not> s_admin (snd kx)) (snd (cleanup_tick t (store s)))
       \<and> list_all (\<lambda>kx. \<not> s_admin (snd kx)) (store (snd (setRole g i A role s)))
       \<and> list_all (\<lambda>kx. \<not> s_admin (snd kx)) (store (snd (unsetRole g i A role s)))
       \<and> list_all (\<lambda>kx. \<not> s_admin (snd kx)) (run_goroutine gr (store s))"
proof -
  let ?Q = "\<lambda>kx :: string \<times> Session. \<not> s_admin (snd kx)"
  note a = assms
  have ns: "list_all ?Q NewStore" by (simp add: NewStore_def)
  have rev: "list_all ?Q (snd (ForEach (revoke_login L) (store s)))"
    by (rule ForEach_revoke_pres [of _ "\<lambda>x. c_login (s_credentials x) = L", OF _ a])
       (simp add: revoke_login_def)
  have si: "list_all ?Q (store (snd (signin g ctx L p s)))"
  proof (cases "signin g ctx L p s")
    case (Pair r s')
    show ?thesis
    proof (cases r)
      case (Inl e)
      with signin_store_raw [OF Pair] rev a Pair show ?thesis by auto
    next
      case (Inr x)
      with Pair have "\<not> s_admin x" by (auto dest: signin_new_not_admin)
      with signin_store_raw [OF Pair] rev Inr Pair show ?thesis
        by (auto intro!: list_all_update)
    qed
  qed
  have su: "list_all ?Q (store (snd (signup g ctx payload L p s)))"
    using a by (simp add: signup_store)
  have so: "list_all ?Q (store (snd (signout ctx i s)))"
    using signout_store [of ctx i s] a by (auto intro: list_all_delete)
  have se: "list_all ?Q (store (snd (session g i s)))"
    using a by (simp add: session_store)
  have cl: "list_all ?Q (snd (cleanup_tick t (store s)))"
  proof (cases "Count (store s) = 0")
    case True
    with a show ?thesis by (simp add: cleanup_tick_def)
  next
    case False
    have "list_all ?Q (snd (ForEach (revoke_expired t) (store s)))"
      by (rule ForEach_revoke_pres [of _ "\<lambda>x. \<not> Unix t < Unix (s_exp x)", OF _ a])
         (simp add: revoke_expired_def)
    with False show ?thesis by (simp add: cleanup_tick_def)
  qed
  have sr: "list_all ?Q (store (snd (setRole g i A role s)))"
    using role_ops_denied [OF a, of g i A role] a by auto
  have ur: "list_all ?Q (store (snd (unsetRole g i A role s)))"
    using role_ops_denied [OF a, of g i A role] a by auto
  have rg: "list_all ?Q (run_goroutine gr (store s))"
    using a by (cases gr) (simp add: RevokeSession_def list_all_delete)
  from ns si su so se cl sr ur rg show ?thesis by blast
qed

lemmas role_simps = setRole_def unsetRole_def session_def InvokeSession_def Count_def Unix_def

text \<open>
  C6, evaluated on the deployment: the configured Admin signs in and, with the session
  returned, grants to account 42 the role \<open>user\<close>, which the credentials of 42 hold, and
  revokes from it the role \<open>editor\<close>, which they do not hold. Both calls return
  \<open>ErrAccessDenied\<close> and leave the state as it was: the grant does not fail with
  \<open>ErrRoleConflict\<close> and the revoke does not succeed.
\<close>

theorem admin_grant_of_held_role_denied:
  "signin demo demo_ctx ''admin'' ''123456'' (demo_state [] 7)
     = (Inr \<lparr>s_id = ''fresh'', s_account = \<lparr>GetID = 0\<rparr>,
             s_credentials = \<lparr>c_id = 0, c_login = ''admin'', c_passhash = [], c_roles = [''admin'']\<rparr>,
             s_exp = 18000000000007, s_iss = 7, s_admin = False\<rparr>,
        \<lparr>store = [(''fresh'', \<lparr>s_id = ''fresh'', s_account = \<lparr>GetID = 0\<rparr>,
             s_credentials = \<lparr>c_id = 0, c_login = ''admin'', c_passhash = [], c_roles = [''admin'']\<rparr>,
             s_exp = 18000000000007, s_iss = 7, s_admin = False\<rparr>)],
         world = 7, calls = [], goroutines = []\<rparr>)
   \<and> fst (CredentialsByID (database demo) 42 7)
     = Inr \<lparr>c_id = 42, c_login = ''alice'', c_passhash = ''hash-of-secret'', c_roles = [''user'']\<rparr>
   \<and> setRole demo ''fresh'' 42 ''user''
        (snd (signin demo demo_ctx ''admin'' ''123456'' (demo_state [] 7)))
     = (Some ErrAccessDenied, snd (signin demo demo_ctx ''admin'' ''123456'' (demo_state [] 7)))
   \<and> unsetRole demo ''fresh'' 42 ''editor''
        (snd (signin demo demo_ctx ''admin'' ''123456'' (demo_state [] 7)))
     = (Some ErrAccessDenied, snd (signin demo demo_ctx ''admin'' ''123456'' (demo_state [] 7)))"
proof -
  have run: "signin demo demo_ctx ''admin'' ''123456'' (demo_state [] 7)
     = (Inr \<lparr>s_id = ''fresh'', s_account = \<lparr>GetID = 0\<rparr>,
             s_credentials = \<lparr>c_id = 0, c_login = ''admin'', c_passhash = [], c_roles = [''admin'']\<rparr>,
             s_exp = 18000000000007, s_iss = 7, s_admin = False\<rparr>,
        \<lparr>store = [(''fresh'', \<lparr>s_id = ''fresh'', s_account = \<lparr>GetID = 0\<rparr>,
             s_credentials = \<lparr>c_id = 0, c_login = ''admin'', c_passhash = [], c_roles = [''admin'']\<rparr>,
             s_exp = 18000000000007, s_iss = 7, s_admin = False\<rparr>)],
         world = 7, calls = [], goroutines = []\<rparr>)"
    by (simp add: run_simps demo_simps)
  show ?thesis unfolding run
    by (simp add: role_simps demo_simps demo_database_def demo_alice_def)
qed


end
